theory Spec2Isabelle
  imports Main "HOL-Library.Word" "HOL-Library.AList" "HOL-Library.Sublist"
begin

unbundle bit_operations_syntax

section \<open>The SQLite database optimizer (optimization/sqlite-db-optimizer.py)\<close>

text \<open>
  The class \<^verbatim>\<open>DatabaseOptimizer\<close> talks to SQLite through the \<^verbatim>\<open>sqlite3\<close> module only:
  \<^verbatim>\<open>sqlite3.connect\<close>, \<^verbatim>\<open>cursor.execute\<close> followed by \<^verbatim>\<open>fetchall\<close>, \<^verbatim>\<open>conn.commit\<close> and
  \<^verbatim>\<open>conn.close\<close>. The embedding keeps every method of the class as a function on an explicit
  state (the fields of \<^verbatim>\<open>self\<close> together with the part of the outside world the calls touch),
  returns every raised exception as a value, and takes the behaviour of SQLite itself as
  a parameter: a record of functions over an arbitrary type \<open>'db\<close> of database contents.
\<close>

subsection \<open>Values and rows that SQLite hands to Python\<close>

text \<open>
  A value of a result row, as \<^verbatim>\<open>sqlite3\<close> converts it: \<^verbatim>\<open>None\<close>, \<^verbatim>\<open>int\<close>, \<^verbatim>\<open>float\<close> (kept as its
  IEEE-754 binary64 bit pattern), \<^verbatim>\<open>str\<close> (kept as its UTF-8 bytes) and \<^verbatim>\<open>bytes\<close>.
\<close>

datatype sql_value =
    Null
  | Integer int
  | Real "64 word"
  | Text string
  | Blob "8 word list"

text \<open>Python truthiness, as \<^verbatim>\<open>if sample[0] and ...\<close> evaluates it.\<close>

fun truthy :: "sql_value \<Rightarrow> bool" where
  "truthy Null = False"
| "truthy (Integer i) = (i \<noteq> 0)"
| "truthy (Real w) = (w AND 0x7FFFFFFFFFFFFFFF \<noteq> 0)"
| "truthy (Text x) = (x \<noteq> [])"
| "truthy (Blob b) = (b \<noteq> [])"

text \<open>\<^verbatim>\<open>isinstance(v, str)\<close>.\<close>

fun isinstance_str :: "sql_value \<Rightarrow> bool" where
  "isinstance_str (Text x) = True"
| "isinstance_str v = False"

text \<open>
  \<^verbatim>\<open>d in v\<close> for a string \<open>d\<close> and a value \<open>v\<close> already known to be a \<^verbatim>\<open>str\<close>: the substring
  test. On a value that is not a string the test is never reached in the source.
\<close>

fun starts_with :: "string \<Rightarrow> string \<Rightarrow> bool" where
  "starts_with [] x = True"
| "starts_with (c # d) [] = False"
| "starts_with (c # d) (a # x) = (c = a \<and> starts_with d x)"

fun str_contains :: "string \<Rightarrow> string \<Rightarrow> bool" where
  "str_contains d [] = (d = [])"
| "str_contains d (a # x) = (starts_with d (a # x) \<or> str_contains d x)"

fun py_in :: "string \<Rightarrow> sql_value \<Rightarrow> bool" where
  "py_in d (Text x) = str_contains d x"
| "py_in d v = False"

text \<open>
  The rows of the catalog queries, with the columns SQLite documents for them. The source
  reads them by position: \<^verbatim>\<open>table[0]\<close> is \<open>m_name\<close> (the only selected column),
  \<^verbatim>\<open>column[1]\<close> is \<open>col_name\<close>, \<^verbatim>\<open>idx[1]\<close> is \<open>idx_name\<close> and \<^verbatim>\<open>fk[3]\<close> is \<open>fk_from\<close>.
\<close>

record master_row =
  m_type :: string
  m_name :: string
  m_tbl_name :: string
  m_rootpage :: int
  m_sql :: sql_value

record column_row =
  col_cid :: int
  col_name :: string
  col_type :: string
  col_notnull :: int
  col_dflt_value :: sql_value
  col_pk :: int

record index_row =
  idx_seq :: int
  idx_name :: string
  idx_unique :: int
  idx_origin :: string
  idx_partial :: int

record fk_row =
  fk_id :: int
  fk_seq :: int
  fk_table :: string
  fk_from :: string
  fk_to :: sql_value
  fk_on_update :: string
  fk_on_delete :: string
  fk_match :: string

subsection \<open>Exceptions and the logger\<close>

text \<open>
  The exceptions that reach the handlers of the source, each with its message.
  \<^verbatim>\<open>sqlite3.Error\<close> stands for the whole family below it (\<^verbatim>\<open>OperationalError\<close>,
  \<^verbatim>\<open>ProgrammingError\<close>, ...); \<^verbatim>\<open>sqlite3.Warning\<close> and \<^verbatim>\<open>AttributeError\<close> are exceptions
  that are not a \<^verbatim>\<open>sqlite3.Error\<close>.
\<close>

datatype exception =
    sqlite3_Error string
  | sqlite3_Warning string
  | AttributeError string

fun is_sqlite3_Error :: "exception \<Rightarrow> bool" where
  "is_sqlite3_Error (sqlite3_Error m) = True"
| "is_sqlite3_Error e = False"

text \<open>\<^verbatim>\<open>f"{e}"\<close>.\<close>

fun str_exc :: "exception \<Rightarrow> string" where
  "str_exc (sqlite3_Error m) = m"
| "str_exc (sqlite3_Warning m) = m"
| "str_exc (AttributeError m) = m"

datatype level = INFO | ERROR

subsection \<open>SQLite as the code uses it\<close>

text \<open>
  What SQLite answers at each call the source makes, on database contents \<open>d\<close>.
  The queries only read; a statement run for its effect and a commit give the new contents.
  \<^item> \<open>sq_connect path d\<close>: \<^verbatim>\<open>sqlite3.connect(path)\<close>; \<open>None\<close> when the connection opens.
  \<^item> \<open>sq_master d\<close>: the rows of \<^verbatim>\<open>sqlite_master\<close>, in the order a scan yields them.
  \<^item> \<open>sq_table_info d t\<close>: \<^verbatim>\<open>PRAGMA table_info(t)\<close>, with \<open>t\<close> spliced into the text.
  \<^item> \<open>sq_index_list d t\<close>: \<^verbatim>\<open>PRAGMA index_list(t)\<close>.
  \<^item> \<open>sq_foreign_key_list d t\<close>: \<^verbatim>\<open>PRAGMA foreign_key_list(t)\<close>.
  \<^item> \<open>sq_select d c t\<close>: the values SQLite returns for the text
    \<^verbatim>\<open>SELECT c FROM t LIMIT 100\<close> with \<open>c\<close> and \<open>t\<close> spliced in as they are. The limit is
    part of the text and SQLite's to apply: names that change the statement (a comment
    marker in a column name, say) change what comes back, and how many rows.
  \<^item> \<open>sq_execute d sql\<close>: a statement run for its effect (\<^verbatim>\<open>CREATE INDEX\<close>, \<^verbatim>\<open>VACUUM\<close>).
  \<^item> \<open>sq_commit d\<close>: \<^verbatim>\<open>conn.commit()\<close>.
\<close>

record 'db sqlite3 =
  sq_connect :: "string \<Rightarrow> 'db \<Rightarrow> exception option"
  sq_master :: "'db \<Rightarrow> exception + master_row list"
  sq_table_info :: "'db \<Rightarrow> string \<Rightarrow> exception + column_row list"
  sq_index_list :: "'db \<Rightarrow> string \<Rightarrow> exception + index_row list"
  sq_foreign_key_list :: "'db \<Rightarrow> string \<Rightarrow> exception + fk_row list"
  sq_select :: "'db \<Rightarrow> string \<Rightarrow> string \<Rightarrow> exception + sql_value list"
  sq_execute :: "'db \<Rightarrow> string \<Rightarrow> exception + 'db"
  sq_commit :: "'db \<Rightarrow> exception + 'db"

text \<open>The calls made on the \<^verbatim>\<open>sqlite3\<close> interface, in order; a connection is a handle.\<close>

type_synonym handle = nat

datatype call =
    Connect string
  | Execute handle string
  | Commit handle
  | Close handle

subsection \<open>The state\<close>

text \<open>
  The fields of \<^verbatim>\<open>self\<close> (\<open>db_path\<close>, \<open>conn\<close>, \<open>cursor\<close>, \<open>logger\<close>: the records the logger
  has emitted) and the world: the database contents, the connections that are open, the next
  unused handle and the trace of calls. \<open>cursor = Some h\<close> is a cursor of connection \<open>h\<close>.
\<close>

record 'db state =
  db_path :: string
  conn :: "handle option"
  cursor :: "handle option"
  logger :: "(level \<times> string) list"
  database :: 'db
  open_conns :: "handle set"
  next_conn :: handle
  trace :: "call list"

text \<open>\<^verbatim>\<open>__init__\<close>: \<^verbatim>\<open>self.conn = None\<close>, \<^verbatim>\<open>self.cursor = None\<close>.\<close>

definition init :: "string \<Rightarrow> 'db \<Rightarrow> 'db state" where
  "init path d =
     \<lparr>db_path = path, conn = None, cursor = None, logger = [],
      database = d, open_conns = {}, next_conn = 0, trace = []\<rparr>"

definition logger_info :: "string \<Rightarrow> 'db state \<Rightarrow> 'db state" where
  "logger_info msg s = s\<lparr>logger := logger s @ [(INFO, msg)]\<rparr>"

definition logger_error :: "string \<Rightarrow> 'db state \<Rightarrow> 'db state" where
  "logger_error msg s = s\<lparr>logger := logger s @ [(ERROR, msg)]\<rparr>"

subsection \<open>connect and close\<close>

text \<open>
  \<^verbatim>\<open>connect\<close>: on success \<^verbatim>\<open>self.conn\<close> and \<^verbatim>\<open>self.cursor\<close> are the new connection and a cursor
  of it; a \<^verbatim>\<open>sqlite3.Error\<close> is logged and raised again, any other exception passes through
  the handler; in both cases the fields keep their old values.
\<close>

definition connect :: "'db sqlite3 \<Rightarrow> 'db state \<Rightarrow> (exception + unit) \<times> 'db state" where
  "connect eng s =
     (let s0 = s\<lparr>trace := trace s @ [Connect (db_path s)]\<rparr> in
      case sq_connect eng (db_path s) (database s) of
        None \<Rightarrow>
          (let h = next_conn s0;
               s1 = s0\<lparr>conn := Some h, open_conns := insert h (open_conns s0),
                       next_conn := Suc h\<rparr>;
               s2 = s1\<lparr>cursor := Some h\<rparr>
           in (Inr (), logger_info (''Successfully connected to database: '' @ db_path s) s2))
      | Some e \<Rightarrow>
          (if is_sqlite3_Error e
           then (Inl e, logger_error (''Error connecting to database: '' @ str_exc e) s0)
           else (Inl e, s0)))"

text \<open>\<^verbatim>\<open>close\<close>: \<^verbatim>\<open>if self.conn:\<close> is false exactly for \<^verbatim>\<open>None\<close>; the field is not reset.\<close>

definition close :: "'db state \<Rightarrow> 'db state" where
  "close s =
     (case conn s of
        None \<Rightarrow> s
      | Some h \<Rightarrow>
          logger_info ''Database connection closed''
            (s\<lparr>open_conns := open_conns s - {h}, trace := trace s @ [Close h]\<rparr>))"

subsection \<open>cursor.execute and fetchall\<close>

text \<open>The message of the \<^verbatim>\<open>AttributeError\<close> for an attribute of \<^verbatim>\<open>None\<close>.\<close>

definition no_attribute :: "string \<Rightarrow> string" where
  "no_attribute a =
     [CHR 0x27] @ ''NoneType'' @ [CHR 0x27] @ '' object has no attribute '' @
     [CHR 0x27] @ a @ [CHR 0x27]"

text \<open>
  \<^verbatim>\<open>self.cursor.execute(sql)\<close> followed by \<^verbatim>\<open>self.cursor.fetchall()\<close>, for a query whose answer
  on the database is \<open>run\<close>. With \<^verbatim>\<open>self.cursor\<close> still \<^verbatim>\<open>None\<close> the attribute access raises
  \<^verbatim>\<open>AttributeError\<close>; on a closed connection \<^verbatim>\<open>sqlite3\<close> raises \<^verbatim>\<open>ProgrammingError\<close>.
\<close>

definition cursor_query ::
  "string \<Rightarrow> ('db \<Rightarrow> exception + 'a) \<Rightarrow> 'db state \<Rightarrow> (exception + 'a) \<times> 'db state" where
  "cursor_query sql run s =
     (case cursor s of
        None \<Rightarrow> (Inl (AttributeError (no_attribute ''execute'')), s)
      | Some h \<Rightarrow>
          if h \<notin> open_conns s
          then (Inl (sqlite3_Error ''Cannot operate on a closed database.''), s)
          else (run (database s), s\<lparr>trace := trace s @ [Execute h sql]\<rparr>))"

text \<open>\<^verbatim>\<open>self.cursor.execute(sql)\<close> for a statement run for its effect.\<close>

definition cursor_execute ::
  "'db sqlite3 \<Rightarrow> string \<Rightarrow> 'db state \<Rightarrow> (exception + unit) \<times> 'db state" where
  "cursor_execute eng sql s =
     (case cursor s of
        None \<Rightarrow> (Inl (AttributeError (no_attribute ''execute'')), s)
      | Some h \<Rightarrow>
          if h \<notin> open_conns s
          then (Inl (sqlite3_Error ''Cannot operate on a closed database.''), s)
          else (case sq_execute eng (database s) sql of
                  Inl e \<Rightarrow> (Inl e, s\<lparr>trace := trace s @ [Execute h sql]\<rparr>)
                | Inr d \<Rightarrow> (Inr (), s\<lparr>database := d, trace := trace s @ [Execute h sql]\<rparr>)))"

text \<open>\<^verbatim>\<open>SELECT name FROM sqlite_master WHERE type='table'\<close>, then \<^verbatim>\<open>table[0]\<close> of each row.\<close>

definition select_tables_sql :: string where
  "select_tables_sql =
     ''SELECT name FROM sqlite_master WHERE type='' @ [CHR 0x27] @ ''table'' @ [CHR 0x27]"

definition select_tables :: "'db sqlite3 \<Rightarrow> 'db state \<Rightarrow> (exception + string list) \<times> 'db state" where
  "select_tables eng =
     cursor_query select_tables_sql
       (\<lambda>d. map_sum id (\<lambda>rows. map m_name (filter (\<lambda>r. m_type r = ''table'') rows))
               (sq_master eng d))"

definition pragma_table_info ::
  "'db sqlite3 \<Rightarrow> string \<Rightarrow> 'db state \<Rightarrow> (exception + column_row list) \<times> 'db state" where
  "pragma_table_info eng table_name =
     cursor_query (''PRAGMA table_info('' @ table_name @ '')'')
       (\<lambda>d. sq_table_info eng d table_name)"

definition pragma_index_list ::
  "'db sqlite3 \<Rightarrow> string \<Rightarrow> 'db state \<Rightarrow> (exception + index_row list) \<times> 'db state" where
  "pragma_index_list eng table_name =
     cursor_query (''PRAGMA index_list('' @ table_name @ '')'')
       (\<lambda>d. sq_index_list eng d table_name)"

definition pragma_foreign_key_list ::
  "'db sqlite3 \<Rightarrow> string \<Rightarrow> 'db state \<Rightarrow> (exception + fk_row list) \<times> 'db state" where
  "pragma_foreign_key_list eng table_name =
     cursor_query (''PRAGMA foreign_key_list('' @ table_name @ '')'')
       (\<lambda>d. sq_foreign_key_list eng d table_name)"

text \<open>\<^verbatim>\<open>SELECT {column_name} FROM {table_name} LIMIT 100\<close>, then \<^verbatim>\<open>sample[0]\<close> of each row.\<close>

definition select_samples ::
  "'db sqlite3 \<Rightarrow> string \<Rightarrow> string \<Rightarrow> 'db state \<Rightarrow> (exception + sql_value list) \<times> 'db state" where
  "select_samples eng column_name table_name =
     cursor_query (''SELECT '' @ column_name @ '' FROM '' @ table_name @ '' LIMIT 100'')
       (\<lambda>d. sq_select eng d column_name table_name)"

subsection \<open>analyze_table_structure\<close>

text \<open>
  One entry of the analysis: the dictionary with the keys \<^verbatim>\<open>'columns'\<close>, \<^verbatim>\<open>'indexes'\<close> and
  \<^verbatim>\<open>'foreign_keys'\<close>. The analysis itself is a dictionary in insertion order: assigning to
  a key that is present replaces its value in place, a new key goes to the end.
\<close>

record table_analysis =
  columns :: "column_row list"
  indexes :: "index_row list"
  foreign_keys :: "fk_row list"

type_synonym analysis = "(string \<times> table_analysis) list"

text \<open>The body of \<^verbatim>\<open>for table in tables:\<close>, run over the tables that are left.\<close>

fun analyze_tables ::
  "'db sqlite3 \<Rightarrow> string list \<Rightarrow> analysis \<Rightarrow> 'db state \<Rightarrow> (exception + analysis) \<times> 'db state" where
  "analyze_tables eng [] analysis s = (Inr analysis, s)"
| "analyze_tables eng (table_name # tables) analysis s =
     (case pragma_table_info eng table_name s of
        (Inl e, s1) \<Rightarrow> (Inl e, s1)
      | (Inr cols, s1) \<Rightarrow>
          (case pragma_index_list eng table_name s1 of
             (Inl e, s2) \<Rightarrow> (Inl e, s2)
           | (Inr idxs, s2) \<Rightarrow>
               (case pragma_foreign_key_list eng table_name s2 of
                  (Inl e, s3) \<Rightarrow> (Inl e, s3)
                | (Inr fks, s3) \<Rightarrow>
                    analyze_tables eng tables
                      (AList.update table_name
                         \<lparr>columns = cols, indexes = idxs, foreign_keys = fks\<rparr> analysis) s3)))"

definition analyze_table_structure ::
  "'db sqlite3 \<Rightarrow> 'db state \<Rightarrow> (exception + analysis) \<times> 'db state" where
  "analyze_table_structure eng s =
     (case select_tables eng s of
        (Inl e, s1) \<Rightarrow> (Inl e, s1)
      | (Inr tables, s1) \<Rightarrow> analyze_tables eng tables [] s1)"

subsection \<open>check_normalization\<close>

record issue =
  ni_table :: string
  ni_column :: string
  ni_issue :: string
  ni_sample :: sql_value

definition delimiters :: "string list" where
  "delimiters = ['','', '';'', ''|'', ''/'']"

text \<open>The body of \<^verbatim>\<open>for sample in samples:\<close> on one sampled value.\<close>

definition check_sample :: "string \<Rightarrow> string \<Rightarrow> sql_value \<Rightarrow> issue list \<Rightarrow> issue list" where
  "check_sample table_name column_name sample issues =
     (if truthy sample \<and> isinstance_str sample
      then (if list_ex (\<lambda>d. py_in d sample) delimiters
            then issues @
              [\<lparr>ni_table = table_name, ni_column = column_name,
                ni_issue = ''Possible 1NF violation - multiple values in single column'',
                ni_sample = sample\<rparr>]
            else issues)
      else issues)"

fun check_samples :: "string \<Rightarrow> string \<Rightarrow> sql_value list \<Rightarrow> issue list \<Rightarrow> issue list" where
  "check_samples table_name column_name [] issues = issues"
| "check_samples table_name column_name (sample # samples) issues =
     check_samples table_name column_name samples
       (check_sample table_name column_name sample issues)"

text \<open>The body of \<^verbatim>\<open>for column in columns:\<close>, run over the columns that are left.\<close>

fun check_columns ::
  "'db sqlite3 \<Rightarrow> string \<Rightarrow> column_row list \<Rightarrow> issue list \<Rightarrow> 'db state
     \<Rightarrow> (exception + issue list) \<times> 'db state" where
  "check_columns eng table_name [] issues s = (Inr issues, s)"
| "check_columns eng table_name (column # cols) issues s =
     (case select_samples eng (col_name column) table_name s of
        (Inl e, s1) \<Rightarrow> (Inl e, s1)
      | (Inr samples, s1) \<Rightarrow>
          check_columns eng table_name cols
            (check_samples table_name (col_name column) samples issues) s1)"

text \<open>The body of \<^verbatim>\<open>for table in tables:\<close>, run over the tables that are left.\<close>

fun check_tables ::
  "'db sqlite3 \<Rightarrow> string list \<Rightarrow> issue list \<Rightarrow> 'db state
     \<Rightarrow> (exception + issue list) \<times> 'db state" where
  "check_tables eng [] issues s = (Inr issues, s)"
| "check_tables eng (table_name # tables) issues s =
     (case pragma_table_info eng table_name s of
        (Inl e, s1) \<Rightarrow> (Inl e, s1)
      | (Inr cols, s1) \<Rightarrow>
          (case check_columns eng table_name cols issues s1 of
             (Inl e, s2) \<Rightarrow> (Inl e, s2)
           | (Inr issues', s2) \<Rightarrow> check_tables eng tables issues' s2))"

definition check_normalization ::
  "'db sqlite3 \<Rightarrow> 'db state \<Rightarrow> (exception + issue list) \<times> 'db state" where
  "check_normalization eng s =
     (case select_tables eng s of
        (Inl e, s1) \<Rightarrow> (Inl e, s1)
      | (Inr tables, s1) \<Rightarrow> check_tables eng tables [] s1)"

subsection \<open>suggest_indexes\<close>

record suggestion =
  sg_table :: string
  sg_column :: string
  sg_suggestion :: string
  sg_sql :: string

text \<open>\<^verbatim>\<open>f"idx_{table_name}_{fk[3]}"\<close>.\<close>

definition idx_name_of :: "string \<Rightarrow> fk_row \<Rightarrow> string" where
  "idx_name_of table_name fk = ''idx_'' @ table_name @ ''_'' @ fk_from fk"

text \<open>The body of \<^verbatim>\<open>for fk in foreign_keys:\<close> on one row.\<close>

definition suggest_fk :: "string \<Rightarrow> string set \<Rightarrow> fk_row \<Rightarrow> suggestion list \<Rightarrow> suggestion list" where
  "suggest_fk table_name existing_indexes fk suggestions =
     (let idx_name = idx_name_of table_name fk in
      if idx_name \<notin> existing_indexes
      then suggestions @
        [\<lparr>sg_table = table_name, sg_column = fk_from fk,
          sg_suggestion = ''Create index on foreign key column: '' @ fk_from fk,
          sg_sql = ''CREATE INDEX '' @ idx_name @ '' ON '' @ table_name @ ''('' @ fk_from fk @ '')''\<rparr>]
      else suggestions)"

fun suggest_fks :: "string \<Rightarrow> string set \<Rightarrow> fk_row list \<Rightarrow> suggestion list \<Rightarrow> suggestion list" where
  "suggest_fks table_name existing_indexes [] suggestions = suggestions"
| "suggest_fks table_name existing_indexes (fk # fks) suggestions =
     suggest_fks table_name existing_indexes fks
       (suggest_fk table_name existing_indexes fk suggestions)"

text \<open>The body of \<^verbatim>\<open>for table in tables:\<close>, run over the tables that are left.\<close>

fun suggest_tables ::
  "'db sqlite3 \<Rightarrow> string list \<Rightarrow> suggestion list \<Rightarrow> 'db state
     \<Rightarrow> (exception + suggestion list) \<times> 'db state" where
  "suggest_tables eng [] suggestions s = (Inr suggestions, s)"
| "suggest_tables eng (table_name # tables) suggestions s =
     (case pragma_index_list eng table_name s of
        (Inl e, s1) \<Rightarrow> (Inl e, s1)
      | (Inr idxs, s1) \<Rightarrow>
          (let existing_indexes = set (map idx_name idxs) in
           case pragma_table_info eng table_name s1 of
             (Inl e, s2) \<Rightarrow> (Inl e, s2)
           | (Inr cols, s2) \<Rightarrow>
               (case pragma_foreign_key_list eng table_name s2 of
                  (Inl e, s3) \<Rightarrow> (Inl e, s3)
                | (Inr fks, s3) \<Rightarrow>
                    suggest_tables eng tables
                      (suggest_fks table_name existing_indexes fks suggestions) s3)))"

definition suggest_indexes ::
  "'db sqlite3 \<Rightarrow> 'db state \<Rightarrow> (exception + suggestion list) \<times> 'db state" where
  "suggest_indexes eng s =
     (case select_tables eng s of
        (Inl e, s1) \<Rightarrow> (Inl e, s1)
      | (Inr tables, s1) \<Rightarrow> suggest_tables eng tables [] s1)"

subsection \<open>optimize_queries\<close>

definition optimize_queries :: "string list" where
  "optimize_queries =
     [''-- Use EXISTS instead of IN for better performance'',
      ''SELECT * FROM table1 WHERE EXISTS (SELECT 1 FROM table2 WHERE table2.id = table1.id)'',
      ''-- Use JOIN instead of subqueries where possible'',
      ''SELECT t1.*, t2.* FROM table1 t1 JOIN table2 t2 ON t1.id = t2.id'',
      ''-- Use EXPLAIN QUERY PLAN to analyze query performance'',
      ''EXPLAIN QUERY PLAN SELECT * FROM your_table WHERE your_column = ''
        @ [CHR 0x27] @ ''value'' @ [CHR 0x27]]"

subsection \<open>generate_optimization_report\<close>

record report =
  table_analysis :: analysis
  normalization_issues :: "issue list"
  index_suggestions :: "suggestion list"
  query_optimizations :: "string list"

text \<open>The \<^verbatim>\<open>try\<close> block: the dictionary's values are computed in the order written.\<close>

definition report_try :: "'db sqlite3 \<Rightarrow> 'db state \<Rightarrow> (exception + report) \<times> 'db state" where
  "report_try eng s =
     (case connect eng s of
        (Inl e, s1) \<Rightarrow> (Inl e, s1)
      | (Inr u, s1) \<Rightarrow>
          (case analyze_table_structure eng s1 of
             (Inl e, s2) \<Rightarrow> (Inl e, s2)
           | (Inr a, s2) \<Rightarrow>
               (case check_normalization eng s2 of
                  (Inl e, s3) \<Rightarrow> (Inl e, s3)
                | (Inr n, s3) \<Rightarrow>
                    (case suggest_indexes eng s3 of
                       (Inl e, s4) \<Rightarrow> (Inl e, s4)
                     | (Inr i, s4) \<Rightarrow>
                         (Inr \<lparr>table_analysis = a, normalization_issues = n,
                               index_suggestions = i,
                               query_optimizations = optimize_queries\<rparr>, s4)))))"

text \<open>
  \<^verbatim>\<open>except Exception as e:\<close> logs and raises again; \<^verbatim>\<open>finally: self.close()\<close> runs on both
  ways out.
\<close>

definition generate_optimization_report ::
  "'db sqlite3 \<Rightarrow> 'db state \<Rightarrow> (exception + report) \<times> 'db state" where
  "generate_optimization_report eng s =
     (case report_try eng s of
        (Inl e, s') \<Rightarrow>
          (Inl e, close (logger_error (''Error generating optimization report: '' @ str_exc e) s'))
      | (Inr r, s') \<Rightarrow> (Inr r, close s'))"

subsection \<open>execute_optimization\<close>

text \<open>
  \<^verbatim>\<open>for suggestion in suggestions:\<close> with its inner \<^verbatim>\<open>try\<close>: \<^verbatim>\<open>except sqlite3.Error\<close> logs and
  goes on with the next suggestion; any other exception leaves the loop.
\<close>

fun apply_suggestions ::
  "'db sqlite3 \<Rightarrow> suggestion list \<Rightarrow> 'db state \<Rightarrow> (exception + unit) \<times> 'db state" where
  "apply_suggestions eng [] s = (Inr (), s)"
| "apply_suggestions eng (suggestion # suggestions) s =
     (case cursor_execute eng (sg_sql suggestion) s of
        (Inr u, s1) \<Rightarrow>
          apply_suggestions eng suggestions
            (logger_info (''Created index: '' @ sg_sql suggestion) s1)
      | (Inl e, s1) \<Rightarrow>
          if is_sqlite3_Error e
          then apply_suggestions eng suggestions
                 (logger_error (''Error creating index: '' @ str_exc e) s1)
          else (Inl e, s1))"

text \<open>\<^verbatim>\<open>self.conn.commit()\<close>.\<close>

definition conn_commit :: "'db sqlite3 \<Rightarrow> 'db state \<Rightarrow> (exception + unit) \<times> 'db state" where
  "conn_commit eng s =
     (case conn s of
        None \<Rightarrow> (Inl (AttributeError (no_attribute ''commit'')), s)
      | Some h \<Rightarrow>
          if h \<notin> open_conns s
          then (Inl (sqlite3_Error ''Cannot operate on a closed database.''), s)
          else (case sq_commit eng (database s) of
                  Inl e \<Rightarrow> (Inl e, s\<lparr>trace := trace s @ [Commit h]\<rparr>)
                | Inr d \<Rightarrow> (Inr (), s\<lparr>database := d, trace := trace s @ [Commit h]\<rparr>)))"

text \<open>The \<^verbatim>\<open>try\<close> block.\<close>

definition optimization_try ::
  "'db sqlite3 \<Rightarrow> bool \<Rightarrow> bool \<Rightarrow> 'db state \<Rightarrow> (exception + unit) \<times> 'db state" where
  "optimization_try eng optimize_indexes vacuum s =
     (case connect eng s of
        (Inl e, s1) \<Rightarrow> (Inl e, s1)
      | (Inr u, s1) \<Rightarrow>
          (case (if optimize_indexes
                 then (case suggest_indexes eng s1 of
                         (Inl e, s2) \<Rightarrow> (Inl e, s2)
                       | (Inr suggestions, s2) \<Rightarrow> apply_suggestions eng suggestions s2)
                 else (Inr (), s1)) of
             (Inl e, s3) \<Rightarrow> (Inl e, s3)
           | (Inr u, s3) \<Rightarrow>
               (case (if vacuum
                      then (case cursor_execute eng ''VACUUM'' s3 of
                              (Inl e, s4) \<Rightarrow> (Inl e, s4)
                            | (Inr u, s4) \<Rightarrow>
                                (Inr (), logger_info ''Database vacuumed successfully'' s4))
                      else (Inr (), s3)) of
                  (Inl e, s5) \<Rightarrow> (Inl e, s5)
                | (Inr u, s5) \<Rightarrow> conn_commit eng s5)))"

definition execute_optimization ::
  "'db sqlite3 \<Rightarrow> bool \<Rightarrow> bool \<Rightarrow> 'db state \<Rightarrow> (exception + unit) \<times> 'db state" where
  "execute_optimization eng optimize_indexes vacuum s =
     (case optimization_try eng optimize_indexes vacuum s of
        (Inl e, s') \<Rightarrow>
          (Inl e, close (logger_error (''Error during optimization execution: '' @ str_exc e) s'))
      | (Inr u, s') \<Rightarrow> (Inr (), close s'))"

section \<open>Vocabulary of the properties\<close>

subsection \<open>States\<close>

text \<open>A usable cursor: \<^verbatim>\<open>self.cursor\<close> is set and its connection is open.\<close>

definition connected :: "'db state \<Rightarrow> bool" where
  "connected s = (case cursor s of None \<Rightarrow> False | Some h \<Rightarrow> h \<in> open_conns s)"

text \<open>\<open>frame s s'\<close>: nothing but the trace differs between \<open>s\<close> and \<open>s'\<close>.\<close>

definition frame :: "'db state \<Rightarrow> 'db state \<Rightarrow> bool" where
  "frame s s' =
     (db_path s' = db_path s \<and> conn s' = conn s \<and> cursor s' = cursor s \<and>
      logger s' = logger s \<and> database s' = database s \<and> open_conns s' = open_conns s \<and>
      next_conn s' = next_conn s)"

text \<open>\<open>sim s t\<close>: the same database contents, seen through cursors in the same condition.\<close>

definition sim :: "'db state \<Rightarrow> 'db state \<Rightarrow> bool" where
  "sim s t =
     (connected s = connected t \<and> (cursor s = None) = (cursor t = None) \<and>
      database s = database t)"

subsection \<open>The schema as the catalog queries show it\<close>

definition tables_of :: "'db sqlite3 \<Rightarrow> 'db \<Rightarrow> string list" where
  "tables_of eng d =
     (case sq_master eng d of
        Inl e \<Rightarrow> []
      | Inr rows \<Rightarrow> map m_name (filter (\<lambda>r. m_type r = ''table'') rows))"

definition columns_of :: "'db sqlite3 \<Rightarrow> 'db \<Rightarrow> string \<Rightarrow> column_row list" where
  "columns_of eng d t = (case sq_table_info eng d t of Inl e \<Rightarrow> [] | Inr cols \<Rightarrow> cols)"

definition index_names_of :: "'db sqlite3 \<Rightarrow> 'db \<Rightarrow> string \<Rightarrow> string list" where
  "index_names_of eng d t =
     (case sq_index_list eng d t of Inl e \<Rightarrow> [] | Inr idxs \<Rightarrow> map idx_name idxs)"

definition foreign_keys_of :: "'db sqlite3 \<Rightarrow> 'db \<Rightarrow> string \<Rightarrow> fk_row list" where
  "foreign_keys_of eng d t = (case sq_foreign_key_list eng d t of Inl e \<Rightarrow> [] | Inr fks \<Rightarrow> fks)"

text \<open>The values the sample query of a column returns, in the order SQLite yields them.\<close>

definition samples_of :: "'db sqlite3 \<Rightarrow> 'db \<Rightarrow> string \<Rightarrow> string \<Rightarrow> sql_value list" where
  "samples_of eng d t c = (case sq_select eng d c t of Inl e \<Rightarrow> [] | Inr vs \<Rightarrow> vs)"

text \<open>The three catalog queries succeed on table \<open>t\<close>.\<close>

definition table_readable :: "'db sqlite3 \<Rightarrow> 'db \<Rightarrow> string \<Rightarrow> bool" where
  "table_readable eng d t =
     (\<not> isl (sq_table_info eng d t) \<and> \<not> isl (sq_index_list eng d t) \<and>
      \<not> isl (sq_foreign_key_list eng d t))"

text \<open>The table list and the three catalog queries of every listed table succeed.\<close>

definition catalog_readable :: "'db sqlite3 \<Rightarrow> 'db \<Rightarrow> bool" where
  "catalog_readable eng d =
     (\<not> isl (sq_master eng d) \<and> list_all (table_readable eng d) (tables_of eng d))"

text \<open>The column list and the sample query of every column of table \<open>t\<close> succeed.\<close>

definition table_samples_readable :: "'db sqlite3 \<Rightarrow> 'db \<Rightarrow> string \<Rightarrow> bool" where
  "table_samples_readable eng d t =
     (\<not> isl (sq_table_info eng d t) \<and>
      list_all (\<lambda>c. \<not> isl (sq_select eng d (col_name c) t)) (columns_of eng d t))"

definition samples_readable :: "'db sqlite3 \<Rightarrow> 'db \<Rightarrow> bool" where
  "samples_readable eng d =
     (\<not> isl (sq_master eng d) \<and> list_all (table_samples_readable eng d) (tables_of eng d))"

text \<open>
  The suggestion as the specification words it, for table \<open>t\<close> and referencing column \<open>c\<close>:
  the statement \<^verbatim>\<open>CREATE INDEX idx_<table>_<column> ON <table>(<column>)\<close>.
\<close>

definition expected_suggestion :: "string \<Rightarrow> string \<Rightarrow> suggestion" where
  "expected_suggestion t c =
     \<lparr>sg_table = t, sg_column = c,
      sg_suggestion = ''Create index on foreign key column: '' @ c,
      sg_sql = ''CREATE INDEX idx_'' @ t @ ''_'' @ c @ '' ON '' @ t @ ''('' @ c @ '')''\<rparr>"

text \<open>A foreign-key row of table \<open>t\<close> with no index named \<^verbatim>\<open>idx_<table>_<column>\<close> on \<open>t\<close>.\<close>

definition uncovered :: "'db sqlite3 \<Rightarrow> 'db \<Rightarrow> string \<Rightarrow> fk_row \<Rightarrow> bool" where
  "uncovered eng d t fk =
     (''idx_'' @ t @ ''_'' @ fk_from fk \<notin> set (index_names_of eng d t))"

text \<open>The delimiter characters of the specification: comma, semicolon, bar and slash.\<close>

definition has_delimiter :: "string \<Rightarrow> bool" where
  "has_delimiter x =
     (CHR '','' \<in> set x \<or> CHR '';'' \<in> set x \<or> CHR ''|'' \<in> set x \<or> CHR ''/'' \<in> set x)"

text \<open>A value that is a non-empty string with a delimiter character in it.\<close>

definition delimited_text :: "sql_value \<Rightarrow> bool" where
  "delimited_text v = (case v of Text x \<Rightarrow> x \<noteq> [] \<and> has_delimiter x | _ \<Rightarrow> False)"

text \<open>
  The index statements as the specification describes their application: each one is
  attempted on its own; one that fails leaves the contents as they are, its failure is
  logged, and the next one is attempted.
\<close>

fun attempt_each :: "'db sqlite3 \<Rightarrow> 'db \<Rightarrow> string list \<Rightarrow> 'db" where
  "attempt_each eng d [] = d"
| "attempt_each eng d (sql # sqls) =
     attempt_each eng (case sq_execute eng d sql of Inl e \<Rightarrow> d | Inr d' \<Rightarrow> d') sqls"

fun attempt_log :: "'db sqlite3 \<Rightarrow> 'db \<Rightarrow> string list \<Rightarrow> (level \<times> string) list" where
  "attempt_log eng d [] = []"
| "attempt_log eng d (sql # sqls) =
     (case sq_execute eng d sql of
        Inl e \<Rightarrow> (ERROR, ''Error creating index: '' @ str_exc e) # attempt_log eng d sqls
      | Inr d' \<Rightarrow> (INFO, ''Created index: '' @ sql) # attempt_log eng d' sqls)"

text \<open>
  SQLite reserves the names that begin with \<^verbatim>\<open>sqlite_\<close> for its own tables
  (\<^verbatim>\<open>sqlite_sequence\<close>, \<^verbatim>\<open>sqlite_stat1\<close>, ...).
\<close>

definition internal_table :: "string \<Rightarrow> bool" where
  "internal_table name = (take 7 name = ''sqlite_'')"

subsection \<open>A small database to run the code on\<close>

text \<open>
  A shop database: \<^verbatim>\<open>customers(id, name)\<close> with an \<^verbatim>\<open>AUTOINCREMENT\<close> key (so SQLite keeps
  its own table \<^verbatim>\<open>sqlite_sequence\<close>), \<^verbatim>\<open>orders(id, customer_id, product_id, notes)\<close> with
  two foreign keys on \<^verbatim>\<open>customer_id\<close> and one on \<^verbatim>\<open>product_id\<close>, and a view. Its contents
  are the \<^verbatim>\<open>CREATE INDEX\<close> statements applied so far, whether the disk is full (\<^verbatim>\<open>VACUUM\<close>
  then fails) and whether the pages of \<^verbatim>\<open>orders\<close> are damaged (its rows cannot be read).
\<close>

record shop_db =
  applied :: "string list"
  disk_full :: bool
  malformed :: bool

definition shop_master :: "master_row list" where
  "shop_master =
     [\<lparr>m_type = ''table'', m_name = ''customers'', m_tbl_name = ''customers'', m_rootpage = 2,
       m_sql = Text ''CREATE TABLE customers(...)''\<rparr>,
      \<lparr>m_type = ''table'', m_name = ''sqlite_sequence'', m_tbl_name = ''sqlite_sequence'',
       m_rootpage = 3, m_sql = Text ''CREATE TABLE sqlite_sequence(name,seq)''\<rparr>,
      \<lparr>m_type = ''table'', m_name = ''orders'', m_tbl_name = ''orders'', m_rootpage = 4,
       m_sql = Text ''CREATE TABLE orders(...)''\<rparr>,
      \<lparr>m_type = ''view'', m_name = ''open_orders'', m_tbl_name = ''open_orders'', m_rootpage = 0,
       m_sql = Text ''CREATE VIEW open_orders AS ...''\<rparr>]"

definition shop_column :: "int \<Rightarrow> string \<Rightarrow> string \<Rightarrow> int \<Rightarrow> column_row" where
  "shop_column i n ty pk =
     \<lparr>col_cid = i, col_name = n, col_type = ty, col_notnull = 0, col_dflt_value = Null,
      col_pk = pk\<rparr>"

definition shop_table_info :: "string \<Rightarrow> column_row list" where
  "shop_table_info t =
     (if t = ''customers''
      then [shop_column 0 ''id'' ''INTEGER'' 1, shop_column 1 ''name'' ''TEXT'' 0]
      else if t = ''sqlite_sequence''
      then [shop_column 0 ''name'' [] 0, shop_column 1 ''seq'' [] 0]
      else if t = ''orders''
      then [shop_column 0 ''id'' ''INTEGER'' 1, shop_column 1 ''customer_id'' ''INTEGER'' 0,
            shop_column 2 ''product_id'' ''INTEGER'' 0, shop_column 3 ''notes'' ''TEXT'' 0]
      else [])"

definition shop_fk :: "int \<Rightarrow> string \<Rightarrow> string \<Rightarrow> fk_row" where
  "shop_fk i tbl c =
     \<lparr>fk_id = i, fk_seq = 0, fk_table = tbl, fk_from = c, fk_to = Text ''id'',
      fk_on_update = ''NO ACTION'', fk_on_delete = ''NO ACTION'', fk_match = ''NONE''\<rparr>"

definition shop_foreign_key_list :: "string \<Rightarrow> fk_row list" where
  "shop_foreign_key_list t =
     (if t = ''orders''
      then [shop_fk 0 ''customers'' ''customer_id'', shop_fk 1 ''members'' ''customer_id'',
            shop_fk 2 ''products'' ''product_id'']
      else [])"

text \<open>The indexes the shop can get, each with the statement that creates it.\<close>

definition shop_indexable :: "(string \<times> string) list" where
  "shop_indexable =
     [(''idx_orders_customer_id'', ''CREATE INDEX idx_orders_customer_id ON orders(customer_id)''),
      (''idx_orders_product_id'', ''CREATE INDEX idx_orders_product_id ON orders(product_id)'')]"

definition shop_index_list :: "shop_db \<Rightarrow> string \<Rightarrow> index_row list" where
  "shop_index_list d t =
     (if t = ''orders''
      then map (\<lambda>p. \<lparr>idx_seq = 0, idx_name = fst p, idx_unique = 0, idx_origin = ''c'',
                      idx_partial = 0\<rparr>)
             (filter (\<lambda>p. snd p \<in> set (applied d)) shop_indexable)
      else [])"

definition shop_select :: "shop_db \<Rightarrow> string \<Rightarrow> string \<Rightarrow> exception + sql_value list" where
  "shop_select d c t =
     (if t = ''orders''
      then (if malformed d then Inl (sqlite3_Error ''database disk image is malformed'')
            else if c = ''notes''
            then Inr [Text ''a,b,c'', Null, Text ''gift wrap'', Text [], Text ''ring 555/0100'']
            else if c = ''id'' \<or> c = ''customer_id'' \<or> c = ''product_id''
            then Inr [Integer 1, Integer 0, Integer 3]
            else Inl (sqlite3_Error (''no such column: '' @ c)))
      else if t = ''customers''
      then (if c = ''id'' then Inr [Integer 1, Integer 2]
            else if c = ''name'' then Inr [Text ''Ada'', Text ''Grace'']
            else Inl (sqlite3_Error (''no such column: '' @ c)))
      else if t = ''sqlite_sequence''
      then (if c = ''name'' then Inr [Text ''customers'']
            else if c = ''seq'' then Inr [Integer 2]
            else Inl (sqlite3_Error (''no such column: '' @ c)))
      else Inl (sqlite3_Error (''no such table: '' @ t)))"

definition shop_execute :: "shop_db \<Rightarrow> string \<Rightarrow> exception + shop_db" where
  "shop_execute d sql =
     (if sql = ''VACUUM''
      then (if disk_full d then Inl (sqlite3_Error ''database or disk is full'') else Inr d)
      else if sql \<in> set (applied d) then Inl (sqlite3_Error ''index already exists'')
      else if sql \<in> set (map snd shop_indexable) then Inr (d\<lparr>applied := applied d @ [sql]\<rparr>)
      else Inl (sqlite3_Error ''syntax error''))"

definition shop :: "shop_db sqlite3" where
  "shop =
     \<lparr>sq_connect = (\<lambda>path d. if path = ''shop.db'' then None
                               else Some (sqlite3_Error ''unable to open database file'')),
      sq_master = (\<lambda>d. Inr shop_master),
      sq_table_info = (\<lambda>d t. Inr (shop_table_info t)),
      sq_index_list = (\<lambda>d t. Inr (shop_index_list d t)),
      sq_foreign_key_list = (\<lambda>d t. Inr (shop_foreign_key_list t)),
      sq_select = shop_select,
      sq_execute = shop_execute,
      sq_commit = Inr\<rparr>"

text \<open>The shop without an index, and with both indexes in place.\<close>

definition shop_plain :: shop_db where
  "shop_plain = \<lparr>applied = [], disk_full = False, malformed = False\<rparr>"

definition shop_indexed :: shop_db where
  "shop_indexed = \<lparr>applied = map snd shop_indexable, disk_full = False, malformed = False\<rparr>"

text \<open>An optimizer with an open connection (handle 0) to database contents \<open>d\<close>.\<close>

definition opened :: "'db \<Rightarrow> 'db state" where
  "opened d =
     \<lparr>db_path = ''shop.db'', conn = Some 0, cursor = Some 0, logger = [],
      database = d, open_conns = {0}, next_conn = 1, trace = []\<rparr>"

section \<open>Properties\<close>

subsection \<open>Frames and queries\<close>

lemma frame_refl [simp]: "frame s s"
  by (simp add: frame_def)

lemma frame_trans: "frame s s1 \<Longrightarrow> frame s1 s2 \<Longrightarrow> frame s s2"
  by (simp add: frame_def)

lemma frame_connected: "frame s s' \<Longrightarrow> connected s' = connected s"
  by (simp add: frame_def connected_def split: option.splits)

lemma sim_frame: "sim s t \<Longrightarrow> frame s s' \<Longrightarrow> frame t t' \<Longrightarrow> sim s' t'"
  by (simp add: sim_def frame_def connected_def split: option.splits)

lemma sim_refl_frame: "frame s s' \<Longrightarrow> sim s' s"
  by (simp add: sim_def frame_def connected_def split: option.splits)

lemma fst_case:
  "fst (case q of (Inl e, s1) \<Rightarrow> (Inl e, s1) | (Inr x, s1) \<Rightarrow> k x s1) =
     (case fst q of Inl e \<Rightarrow> Inl e | Inr x \<Rightarrow> fst (k x (snd q)))"
  by (cases q; cases "fst q") auto

lemma snd_case:
  "snd (case q of (Inl e, s1) \<Rightarrow> (Inl e, s1) | (Inr x, s1) \<Rightarrow> k x s1) =
     (case fst q of Inl e \<Rightarrow> snd q | Inr x \<Rightarrow> snd (k x (snd q)))"
  by (cases q; cases "fst q") auto

lemma cursor_query_frame: "frame s (snd (cursor_query sql run s))"
  by (simp add: cursor_query_def frame_def split: option.splits)

lemma cursor_query_cong:
  "sim s t \<Longrightarrow> fst (cursor_query sql run s) = fst (cursor_query sql run t)"
  by (cases "cursor s"; cases "cursor t") (auto simp: cursor_query_def sim_def connected_def)

lemma cursor_query_connected:
  "connected s \<Longrightarrow> fst (cursor_query sql run s) = run (database s)"
  by (auto simp: cursor_query_def connected_def split: option.splits)

lemma cursor_query_trace:
  "connected s \<Longrightarrow>
   trace (snd (cursor_query sql run s)) = trace s @ [Execute (the (cursor s)) sql]"
  by (auto simp: cursor_query_def connected_def split: option.splits)

lemmas query_defs =
  select_tables_def pragma_table_info_def pragma_index_list_def pragma_foreign_key_list_def
  select_samples_def

lemma query_frames:
  "frame s (snd (select_tables eng s))"
  "frame s (snd (pragma_table_info eng t s))"
  "frame s (snd (pragma_index_list eng t s))"
  "frame s (snd (pragma_foreign_key_list eng t s))"
  "frame s (snd (select_samples eng c t s))"
  by (simp_all add: query_defs cursor_query_frame)

lemma query_congs:
  "sim s s' \<Longrightarrow> fst (select_tables eng s) = fst (select_tables eng s')"
  "sim s s' \<Longrightarrow> fst (pragma_table_info eng t s) = fst (pragma_table_info eng t s')"
  "sim s s' \<Longrightarrow> fst (pragma_index_list eng t s) = fst (pragma_index_list eng t s')"
  "sim s s' \<Longrightarrow> fst (pragma_foreign_key_list eng t s) = fst (pragma_foreign_key_list eng t s')"
  "sim s s' \<Longrightarrow> fst (select_samples eng c t s) = fst (select_samples eng c t s')"
  by (simp_all add: query_defs cursor_query_cong)

subsection \<open>The index advisor reads and leaves the state alone\<close>

lemma suggest_tables_frame: "frame s (snd (suggest_tables eng ts acc s))"
proof (induction ts arbitrary: acc s)
  case Nil
  show ?case by simp
next
  case (Cons x ts)
  let ?s1 = "snd (pragma_index_list eng x s)"
  let ?s2 = "snd (pragma_table_info eng x ?s1)"
  let ?s3 = "snd (pragma_foreign_key_list eng x ?s2)"
  have f1: "frame s ?s1" by (rule query_frames)
  have f2: "frame s ?s2" by (rule frame_trans [OF f1]) (rule query_frames)
  have f3: "frame s ?s3" by (rule frame_trans [OF f2]) (rule query_frames)
  have f4: "frame s (snd (suggest_tables eng ts acc' ?s3))" for acc'
    by (rule frame_trans [OF f3 Cons.IH])
  show ?case using f1 f2 f3 f4
    by (simp add: snd_case Let_def split: sum.splits)
qed

lemma suggest_tables_cong:
  "sim s t \<Longrightarrow> fst (suggest_tables eng ts acc s) = fst (suggest_tables eng ts acc t)"
proof (induction ts arbitrary: acc s t)
  case Nil
  show ?case by simp
next
  case (Cons x ts)
  let ?s1 = "snd (pragma_index_list eng x s)" and ?t1 = "snd (pragma_index_list eng x t)"
  let ?s2 = "snd (pragma_table_info eng x ?s1)" and ?t2 = "snd (pragma_table_info eng x ?t1)"
  let ?s3 = "snd (pragma_foreign_key_list eng x ?s2)"
  let ?t3 = "snd (pragma_foreign_key_list eng x ?t2)"
  have s1: "sim ?s1 ?t1" by (rule sim_frame [OF Cons.prems]) (rule query_frames)+
  have s2: "sim ?s2 ?t2" by (rule sim_frame [OF s1]) (rule query_frames)+
  have s3: "sim ?s3 ?t3" by (rule sim_frame [OF s2]) (rule query_frames)+
  show ?case
    using query_congs(3) [OF Cons.prems, of eng x] query_congs(2) [OF s1, of eng x]
      query_congs(4) [OF s2, of eng x] Cons.IH [OF s3]
    by (simp add: fst_case Let_def split: sum.splits)
qed

lemma suggest_indexes_frame: "frame s (snd (suggest_indexes eng s))"
  using frame_trans [OF query_frames(1) suggest_tables_frame, of s eng] query_frames(1) [of s eng]
  by (simp add: suggest_indexes_def snd_case split: sum.splits)

lemma suggest_indexes_cong:
  assumes "sim s t"
  shows "fst (suggest_indexes eng s) = fst (suggest_indexes eng t)"
proof -
  have "sim (snd (select_tables eng s)) (snd (select_tables eng t))"
    by (rule sim_frame [OF assms]) (rule query_frames)+
  from suggest_tables_cong [OF this] show ?thesis
    using query_congs(1) [OF assms, of eng]
    by (simp add: suggest_indexes_def fst_case split: sum.splits)
qed

subsection \<open>The table analysis reads and leaves the state alone\<close>

lemma analyze_tables_frame: "frame s (snd (analyze_tables eng ts acc s))"
proof (induction ts arbitrary: acc s)
  case Nil
  show ?case by simp
next
  case (Cons x ts)
  let ?s1 = "snd (pragma_table_info eng x s)"
  let ?s2 = "snd (pragma_index_list eng x ?s1)"
  let ?s3 = "snd (pragma_foreign_key_list eng x ?s2)"
  have f1: "frame s ?s1" by (rule query_frames)
  have f2: "frame s ?s2" by (rule frame_trans [OF f1]) (rule query_frames)
  have f3: "frame s ?s3" by (rule frame_trans [OF f2]) (rule query_frames)
  have f4: "frame s (snd (analyze_tables eng ts acc' ?s3))" for acc'
    by (rule frame_trans [OF f3 Cons.IH])
  show ?case using f1 f2 f3 f4
    by (simp add: snd_case split: sum.splits)
qed

lemma analyze_tables_cong:
  "sim s t \<Longrightarrow> fst (analyze_tables eng ts acc s) = fst (analyze_tables eng ts acc t)"
proof (induction ts arbitrary: acc s t)
  case Nil
  show ?case by simp
next
  case (Cons x ts)
  let ?s1 = "snd (pragma_table_info eng x s)" and ?t1 = "snd (pragma_table_info eng x t)"
  let ?s2 = "snd (pragma_index_list eng x ?s1)" and ?t2 = "snd (pragma_index_list eng x ?t1)"
  let ?s3 = "snd (pragma_foreign_key_list eng x ?s2)"
  let ?t3 = "snd (pragma_foreign_key_list eng x ?t2)"
  have s1: "sim ?s1 ?t1" by (rule sim_frame [OF Cons.prems]) (rule query_frames)+
  have s2: "sim ?s2 ?t2" by (rule sim_frame [OF s1]) (rule query_frames)+
  have s3: "sim ?s3 ?t3" by (rule sim_frame [OF s2]) (rule query_frames)+
  show ?case
    using query_congs(2) [OF Cons.prems, of eng x] query_congs(3) [OF s1, of eng x]
      query_congs(4) [OF s2, of eng x] Cons.IH [OF s3]
    by (simp add: fst_case split: sum.splits)
qed

lemma analyze_table_structure_frame: "frame s (snd (analyze_table_structure eng s))"
  using frame_trans [OF query_frames(1) analyze_tables_frame, of s eng] query_frames(1) [of s eng]
  by (simp add: analyze_table_structure_def snd_case split: sum.splits)

lemma analyze_table_structure_cong:
  assumes "sim s t"
  shows "fst (analyze_table_structure eng s) = fst (analyze_table_structure eng t)"
proof -
  have "sim (snd (select_tables eng s)) (snd (select_tables eng t))"
    by (rule sim_frame [OF assms]) (rule query_frames)+
  from analyze_tables_cong [OF this] show ?thesis
    using query_congs(1) [OF assms, of eng]
    by (simp add: analyze_table_structure_def fst_case split: sum.splits)
qed

subsection \<open>The normalization checker reads and leaves the state alone\<close>

lemma check_columns_frame: "frame s (snd (check_columns eng t cols acc s))"
proof (induction cols arbitrary: acc s)
  case Nil
  show ?case by simp
next
  case (Cons c cols)
  let ?s1 = "snd (select_samples eng (col_name c) t s)"
  have f1: "frame s ?s1" by (rule query_frames)
  have f2: "frame s (snd (check_columns eng t cols acc' ?s1))" for acc'
    by (rule frame_trans [OF f1 Cons.IH])
  show ?case using f1 f2
    by (simp add: snd_case split: sum.splits)
qed

lemma check_columns_cong:
  "sim s s' \<Longrightarrow> fst (check_columns eng t cols acc s) = fst (check_columns eng t cols acc s')"
proof (induction cols arbitrary: acc s s')
  case Nil
  show ?case by simp
next
  case (Cons c cols)
  have "sim (snd (select_samples eng (col_name c) t s)) (snd (select_samples eng (col_name c) t s'))"
    by (rule sim_frame [OF Cons.prems]) (rule query_frames)+
  from Cons.IH [OF this] show ?case
    using query_congs(5) [OF Cons.prems, of eng "col_name c" t]
    by (simp add: fst_case split: sum.splits)
qed

lemma check_tables_frame: "frame s (snd (check_tables eng ts acc s))"
proof (induction ts arbitrary: acc s)
  case Nil
  show ?case by simp
next
  case (Cons x ts)
  let ?s1 = "snd (pragma_table_info eng x s)"
  have f1: "frame s ?s1" by (rule query_frames)
  have f2: "frame s (snd (check_columns eng x cols acc ?s1))" for cols
    by (rule frame_trans [OF f1 check_columns_frame])
  have f3: "frame s (snd (check_tables eng ts acc' (snd (check_columns eng x cols acc ?s1))))"
    for acc' cols
    by (rule frame_trans [OF f2 Cons.IH])
  show ?case using f1 f2 f3
    by (simp add: snd_case split: sum.splits)
qed

lemma check_tables_cong:
  "sim s s' \<Longrightarrow> fst (check_tables eng ts acc s) = fst (check_tables eng ts acc s')"
proof (induction ts arbitrary: acc s s')
  case Nil
  show ?case by simp
next
  case (Cons x ts)
  let ?s1 = "snd (pragma_table_info eng x s)" and ?t1 = "snd (pragma_table_info eng x s')"
  have s1: "sim ?s1 ?t1" by (rule sim_frame [OF Cons.prems]) (rule query_frames)+
  have s2: "sim (snd (check_columns eng x cols acc ?s1)) (snd (check_columns eng x cols acc ?t1))"
    for cols
    by (rule sim_frame [OF s1]) (rule check_columns_frame)+
  show ?case
    using query_congs(2) [OF Cons.prems, of eng x] check_columns_cong [OF s1, of eng x]
      Cons.IH [OF s2]
    by (simp add: fst_case split: sum.splits)
qed

lemma check_normalization_frame: "frame s (snd (check_normalization eng s))"
  using frame_trans [OF query_frames(1) check_tables_frame, of s eng] query_frames(1) [of s eng]
  by (simp add: check_normalization_def snd_case split: sum.splits)

lemma check_normalization_cong:
  assumes "sim s t"
  shows "fst (check_normalization eng s) = fst (check_normalization eng t)"
proof -
  have "sim (snd (select_tables eng s)) (snd (select_tables eng t))"
    by (rule sim_frame [OF assms]) (rule query_frames)+
  from check_tables_cong [OF this] show ?thesis
    using query_congs(1) [OF assms, of eng]
    by (simp add: check_normalization_def fst_case split: sum.splits)
qed

subsection \<open>What the index advisor returns on a readable catalog\<close>

lemma frame_database: "frame s s' \<Longrightarrow> database s' = database s"
  by (simp add: frame_def)

lemma frame_cursor: "frame s s' \<Longrightarrow> cursor s' = cursor s"
  by (simp add: frame_def)

lemmas query_database = query_frames [THEN frame_database]
lemmas query_connected = query_frames [THEN frame_connected]
lemmas query_cursor = query_frames [THEN frame_cursor]

lemma query_results:
  "connected s \<Longrightarrow> fst (select_tables eng s) =
     map_sum id (\<lambda>rows. map m_name (filter (\<lambda>r. m_type r = ''table'') rows))
       (sq_master eng (database s))"
  "connected s \<Longrightarrow> fst (pragma_table_info eng t s) = sq_table_info eng (database s) t"
  "connected s \<Longrightarrow> fst (pragma_index_list eng t s) = sq_index_list eng (database s) t"
  "connected s \<Longrightarrow> fst (pragma_foreign_key_list eng t s) = sq_foreign_key_list eng (database s) t"
  "connected s \<Longrightarrow> fst (select_samples eng c t s) = sq_select eng (database s) c t"
  by (simp_all add: query_defs cursor_query_connected)

lemma select_tables_readable:
  "connected s \<Longrightarrow> \<not> isl (sq_master eng (database s)) \<Longrightarrow>
   fst (select_tables eng s) = Inr (tables_of eng (database s))"
  by (cases "sq_master eng (database s)") (simp_all add: query_results tables_of_def)

lemma suggest_fk_append:
  "suggest_fk t ex fk acc = acc @ suggest_fk t ex fk []"
  by (simp add: suggest_fk_def Let_def)

lemma suggest_fks_eq:
  "suggest_fks t ex fks acc = acc @ concat (map (\<lambda>fk. suggest_fk t ex fk []) fks)"
proof (induction fks arbitrary: acc)
  case Nil
  show ?case by simp
next
  case (Cons fk fks)
  have "suggest_fks t ex (fk # fks) acc = suggest_fks t ex fks (suggest_fk t ex fk acc)"
    by simp
  also have "\<dots> = suggest_fk t ex fk acc @ concat (map (\<lambda>fk. suggest_fk t ex fk []) fks)"
    by (rule Cons.IH)
  also have "suggest_fk t ex fk acc = acc @ suggest_fk t ex fk []"
    by (rule suggest_fk_append)
  finally show ?case by simp
qed

lemma suggest_tables_readable:
  "connected s \<Longrightarrow> list_all (table_readable eng (database s)) ts \<Longrightarrow>
   fst (suggest_tables eng ts acc s) =
     Inr (acc @ concat (map (\<lambda>t. concat (map (\<lambda>fk.
            suggest_fk t (set (index_names_of eng (database s) t)) fk [])
              (foreign_keys_of eng (database s) t))) ts))"
proof (induction ts arbitrary: acc s)
  case Nil
  show ?case by simp
next
  case (Cons x ts)
  let ?d = "database s"
  let ?s1 = "snd (pragma_index_list eng x s)"
  let ?s2 = "snd (pragma_table_info eng x ?s1)"
  let ?s3 = "snd (pragma_foreign_key_list eng x ?s2)"
  from Cons.prems obtain cols idxs fks where r:
    "sq_table_info eng ?d x = Inr cols" "sq_index_list eng ?d x = Inr idxs"
    "sq_foreign_key_list eng ?d x = Inr fks"
    by (cases "sq_table_info eng ?d x"; cases "sq_index_list eng ?d x";
        cases "sq_foreign_key_list eng ?d x") (auto simp: table_readable_def)
  have c: "connected ?s1" "connected ?s2" "connected ?s3"
    using Cons.prems(1) by (simp_all add: query_connected)
  have d: "database ?s1 = ?d" "database ?s2 = ?d" "database ?s3 = ?d"
    by (simp_all add: query_database)
  have ih: "fst (suggest_tables eng ts acc' ?s3) =
     Inr (acc' @ concat (map (\<lambda>t. concat (map (\<lambda>fk.
            suggest_fk t (set (index_names_of eng ?d t)) fk [])
              (foreign_keys_of eng ?d t))) ts))" for acc'
    using Cons.IH [OF c(3), of acc'] Cons.prems(2) by (simp add: d)
  show ?case
    using Cons.prems(1) c r
    by (simp add: fst_case query_results d ih Let_def suggest_fks_eq
          index_names_of_def foreign_keys_of_def)
qed

lemma suggest_indexes_readable:
  assumes "connected s" and "catalog_readable eng (database s)"
  shows "fst (suggest_indexes eng s) =
     Inr (concat (map (\<lambda>t. concat (map (\<lambda>fk.
            suggest_fk t (set (index_names_of eng (database s) t)) fk [])
              (foreign_keys_of eng (database s) t))) (tables_of eng (database s))))"
proof -
  let ?s1 = "snd (select_tables eng s)"
  have c: "connected ?s1" using assms(1) by (simp add: query_connected)
  have d: "database ?s1 = database s" by (simp add: query_database)
  from assms(2) have m: "\<not> isl (sq_master eng (database s))"
    and r: "list_all (table_readable eng (database ?s1)) (tables_of eng (database s))"
    by (simp_all add: catalog_readable_def d)
  show ?thesis
    using select_tables_readable [OF assms(1) m] suggest_tables_readable [OF c r, of "[]"]
    by (simp add: suggest_indexes_def fst_case d)
qed

lemma concat_map_if:
  "concat (map (\<lambda>x. if P x then [f x] else []) xs) = map f (filter P xs)"
  by (induction xs) simp_all

lemma suggest_fk_expected:
  "suggest_fk t (set (index_names_of eng d t)) fk [] =
     (if uncovered eng d t fk then [expected_suggestion t (fk_from fk)] else [])"
  by (simp add: suggest_fk_def idx_name_of_def uncovered_def expected_suggestion_def Let_def)

lemma suggest_indexes_expected:
  assumes "connected s" and "catalog_readable eng (database s)"
  shows "fst (suggest_indexes eng s) =
     Inr (concat (map (\<lambda>t. map (\<lambda>fk. expected_suggestion t (fk_from fk))
            (filter (uncovered eng (database s) t) (foreign_keys_of eng (database s) t)))
          (tables_of eng (database s))))"
  by (simp add: suggest_indexes_readable [OF assms] suggest_fk_expected concat_map_if)

subsection \<open>Running the code on the shop\<close>

lemmas shop_defs = shop_def shop_master_def shop_table_info_def shop_foreign_key_list_def
  shop_indexable_def shop_index_list_def shop_select_def shop_execute_def shop_column_def
  shop_fk_def shop_plain_def shop_indexed_def

lemmas view_defs = tables_of_def columns_of_def index_names_of_def foreign_keys_of_def
  samples_of_def table_readable_def catalog_readable_def table_samples_readable_def
  samples_readable_def uncovered_def

lemma connected_opened: "connected (opened d)"
  by (simp add: connected_def opened_def)

lemma database_opened: "database (opened d) = d"
  by (simp add: opened_def)

lemma shop_catalog_readable: "catalog_readable shop d"
  by (simp add: catalog_readable_def table_readable_def shop_def list_all_iff)

lemma shop_tables: "tables_of shop d = [''customers'', ''sqlite_sequence'', ''orders'']"
  by (simp add: tables_of_def shop_def shop_master_def)

subsection \<open>What the normalization checker returns\<close>

lemma str_contains_single: "str_contains [c] x = (c \<in> set x)"
  by (induction x) auto

lemma any_delimiter:
  "list_ex (\<lambda>d. str_contains d x) delimiters = has_delimiter x"
  by (simp add: delimiters_def has_delimiter_def str_contains_single)

lemma has_delimiter_nonempty: "has_delimiter x \<Longrightarrow> x \<noteq> []"
  by (auto simp: has_delimiter_def)

lemma check_sample_Text:
  "check_sample t c (Text x) acc =
     (if has_delimiter x
      then acc @ [\<lparr>ni_table = t, ni_column = c,
                   ni_issue = ''Possible 1NF violation - multiple values in single column'',
                   ni_sample = Text x\<rparr>]
      else acc)"
  by (auto simp: check_sample_def any_delimiter dest: has_delimiter_nonempty)

lemma check_sample_other:
  "check_sample t c Null acc = acc"
  "check_sample t c (Integer n) acc = acc"
  "check_sample t c (Real w) acc = acc"
  "check_sample t c (Blob b) acc = acc"
  "check_sample t c (Text []) acc = acc"
  by (simp_all add: check_sample_def)

lemma check_sample_append: "check_sample t c v acc = acc @ check_sample t c v []"
  by (simp add: check_sample_def)

lemma check_samples_eq:
  "check_samples t c vs acc = acc @ concat (map (\<lambda>v. check_sample t c v []) vs)"
proof (induction vs arbitrary: acc)
  case Nil
  show ?case by simp
next
  case (Cons v vs)
  have "check_samples t c (v # vs) acc = check_samples t c vs (check_sample t c v acc)"
    by simp
  also have "\<dots> = check_sample t c v acc @ concat (map (\<lambda>v. check_sample t c v []) vs)"
    by (rule Cons.IH)
  also have "check_sample t c v acc = acc @ check_sample t c v []"
    by (rule check_sample_append)
  finally show ?case by simp
qed

lemma check_columns_readable:
  "connected s \<Longrightarrow>
   list_all (\<lambda>c. \<not> isl (sq_select eng (database s) (col_name c) t)) cols \<Longrightarrow>
   fst (check_columns eng t cols acc s) =
     Inr (acc @ concat (map (\<lambda>c. concat (map (\<lambda>v. check_sample t (col_name c) v [])
            (samples_of eng (database s) t (col_name c)))) cols))"
proof (induction cols arbitrary: acc s)
  case Nil
  show ?case by simp
next
  case (Cons c cols)
  let ?d = "database s"
  let ?s1 = "snd (select_samples eng (col_name c) t s)"
  from Cons.prems obtain vs where r: "sq_select eng ?d (col_name c) t = Inr vs"
    by (cases "sq_select eng ?d (col_name c) t") auto
  have c1: "connected ?s1" using Cons.prems(1) by (simp add: query_connected)
  have d1: "database ?s1 = ?d" by (simp add: query_database)
  have ih: "fst (check_columns eng t cols acc' ?s1) =
     Inr (acc' @ concat (map (\<lambda>c. concat (map (\<lambda>v. check_sample t (col_name c) v [])
            (samples_of eng ?d t (col_name c)))) cols))" for acc'
    using Cons.IH [OF c1, of acc'] Cons.prems(2) by (simp add: d1)
  show ?case
    using Cons.prems(1) r
    by (simp add: fst_case query_results ih check_samples_eq samples_of_def)
qed

lemma check_tables_readable:
  "connected s \<Longrightarrow> list_all (table_samples_readable eng (database s)) ts \<Longrightarrow>
   fst (check_tables eng ts acc s) =
     Inr (acc @ concat (map (\<lambda>t. concat (map (\<lambda>c. concat (map (\<lambda>v.
            check_sample t (col_name c) v []) (samples_of eng (database s) t (col_name c))))
              (columns_of eng (database s) t))) ts))"
proof (induction ts arbitrary: acc s)
  case Nil
  show ?case by simp
next
  case (Cons x ts)
  let ?d = "database s"
  let ?s1 = "snd (pragma_table_info eng x s)"
  from Cons.prems obtain cols where r: "sq_table_info eng ?d x = Inr cols"
    by (cases "sq_table_info eng ?d x") (auto simp: table_samples_readable_def)
  have c1: "connected ?s1" using Cons.prems(1) by (simp add: query_connected)
  have d1: "database ?s1 = ?d" by (simp add: query_database)
  have cr: "list_all (\<lambda>c. \<not> isl (sq_select eng (database ?s1) (col_name c) x)) cols"
    using Cons.prems(2) r by (simp add: table_samples_readable_def columns_of_def d1)
  let ?s2 = "snd (check_columns eng x cols acc ?s1)"
  have f2: "frame ?s1 ?s2" by (rule check_columns_frame)
  have c2: "connected ?s2" using c1 frame_connected [OF f2] by simp
  have d2: "database ?s2 = ?d" using d1 frame_database [OF f2] by simp
  have ih: "fst (check_tables eng ts acc' ?s2) =
     Inr (acc' @ concat (map (\<lambda>t. concat (map (\<lambda>c. concat (map (\<lambda>v.
            check_sample t (col_name c) v []) (samples_of eng ?d t (col_name c))))
              (columns_of eng ?d t))) ts))" for acc'
    using Cons.IH [OF c2, of acc'] Cons.prems(2) by (simp add: d2)
  show ?case
    using Cons.prems(1) r
    by (simp add: fst_case query_results check_columns_readable [OF c1 cr] d1 ih columns_of_def)
qed

lemma check_normalization_readable:
  assumes "connected s" and "samples_readable eng (database s)"
  shows "fst (check_normalization eng s) =
     Inr (concat (map (\<lambda>t. concat (map (\<lambda>c. concat (map (\<lambda>v.
            check_sample t (col_name c) v []) (samples_of eng (database s) t (col_name c))))
              (columns_of eng (database s) t))) (tables_of eng (database s))))"
proof -
  let ?s1 = "snd (select_tables eng s)"
  have c: "connected ?s1" using assms(1) by (simp add: query_connected)
  have d: "database ?s1 = database s" by (simp add: query_database)
  from assms(2) have m: "\<not> isl (sq_master eng (database s))"
    and r: "list_all (table_samples_readable eng (database ?s1)) (tables_of eng (database s))"
    by (simp_all add: samples_readable_def d)
  show ?thesis
    using select_tables_readable [OF assms(1) m] check_tables_readable [OF c r, of "[]"]
    by (simp add: check_normalization_def fst_case d)
qed

subsection \<open>Every issue carries a delimited text\<close>

lemma check_sample_inv:
  "\<forall>i \<in> set acc. delimited_text (ni_sample i) \<Longrightarrow>
   \<forall>i \<in> set (check_sample t c v acc). delimited_text (ni_sample i)"
  by (cases v) (auto simp: check_sample_def any_delimiter delimited_text_def)

lemma check_samples_inv:
  "\<forall>i \<in> set acc. delimited_text (ni_sample i) \<Longrightarrow>
   \<forall>i \<in> set (check_samples t c vs acc). delimited_text (ni_sample i)"
proof (induction vs arbitrary: acc)
  case Nil
  then show ?case by simp
next
  case (Cons v vs)
  from Cons.IH [OF check_sample_inv [OF Cons.prems]] show ?case by simp
qed

lemma check_columns_inv:
  "fst (check_columns eng t cols acc s) = Inr out \<Longrightarrow>
   \<forall>i \<in> set acc. delimited_text (ni_sample i) \<Longrightarrow>
   \<forall>i \<in> set out. delimited_text (ni_sample i)"
proof (induction cols arbitrary: acc s)
  case Nil
  then show ?case by simp
next
  case (Cons c cols)
  from Cons.prems(1) obtain vs where
    "fst (check_columns eng t cols (check_samples t (col_name c) vs acc)
       (snd (select_samples eng (col_name c) t s))) = Inr out"
    by (auto simp: fst_case split: sum.splits)
  from Cons.IH [OF this check_samples_inv [OF Cons.prems(2)]] show ?case .
qed

lemma check_tables_inv:
  "fst (check_tables eng ts acc s) = Inr out \<Longrightarrow>
   \<forall>i \<in> set acc. delimited_text (ni_sample i) \<Longrightarrow>
   \<forall>i \<in> set out. delimited_text (ni_sample i)"
proof (induction ts arbitrary: acc s)
  case Nil
  then show ?case by simp
next
  case (Cons x ts)
  let ?s1 = "snd (pragma_table_info eng x s)"
  from Cons.prems(1) obtain cols mid where
    m: "fst (check_columns eng x cols acc ?s1) = Inr mid" and
    r: "fst (check_tables eng ts mid (snd (check_columns eng x cols acc ?s1))) = Inr out"
    by (auto simp: fst_case split: sum.splits)
  from Cons.IH [OF r check_columns_inv [OF m Cons.prems(2)]] show ?case .
qed

lemma check_normalization_inv:
  assumes "fst (check_normalization eng s) = Inr out"
  shows "\<forall>i \<in> set out. delimited_text (ni_sample i)"
proof -
  from assms obtain ts where
    "fst (check_tables eng ts [] (snd (select_tables eng s))) = Inr out"
    by (auto simp: check_normalization_def fst_case split: sum.splits)
  from check_tables_inv [OF this] show ?thesis by simp
qed


subsection \<open>More of the shop\<close>

lemma shop_samples_readable: "samples_readable shop shop_plain"
  by (simp add: view_defs shop_defs)

lemma shop_check_normalization:
  "fst (check_normalization shop (opened shop_plain)) =
     Inr [\<lparr>ni_table = ''orders'', ni_column = ''notes'',
           ni_issue = ''Possible 1NF violation - multiple values in single column'',
           ni_sample = Text ''a,b,c''\<rparr>,
          \<lparr>ni_table = ''orders'', ni_column = ''notes'',
           ni_issue = ''Possible 1NF violation - multiple values in single column'',
           ni_sample = Text ''ring 555/0100''\<rparr>]"
proof -
  have r: "samples_readable shop (database (opened shop_plain))"
    by (simp add: database_opened shop_samples_readable)
  show ?thesis
    by (simp add: check_normalization_readable [OF connected_opened r] database_opened shop_tables)
       (simp add: view_defs shop_defs check_sample_Text check_sample_other has_delimiter_def)
qed

subsection \<open>A returned suggestion list means a readable catalog\<close>

lemma cursor_query_Inr:
  "fst (cursor_query sql run s) = Inr x \<Longrightarrow> connected s \<and> run (database s) = Inr x"
  by (cases "cursor s") (auto simp: cursor_query_def connected_def split: if_splits)

lemma select_tables_Inr:
  assumes "fst (select_tables eng s) = Inr ts"
  shows "connected s \<and> \<not> isl (sq_master eng (database s)) \<and> ts = tables_of eng (database s)"
proof -
  from cursor_query_Inr [OF assms [unfolded select_tables_def]]
  show ?thesis
    by (cases "sq_master eng (database s)") (auto simp: tables_of_def)
qed

lemma suggest_tables_Inr:
  "connected s \<Longrightarrow> fst (suggest_tables eng ts acc s) = Inr out \<Longrightarrow>
   list_all (table_readable eng (database s)) ts"
proof (induction ts arbitrary: acc s)
  case Nil
  show ?case by simp
next
  case (Cons x ts)
  let ?s1 = "snd (pragma_index_list eng x s)"
  let ?s2 = "snd (pragma_table_info eng x ?s1)"
  let ?s3 = "snd (pragma_foreign_key_list eng x ?s2)"
  have c: "connected ?s1" "connected ?s2" "connected ?s3"
    using Cons.prems(1) by (simp_all add: query_connected)
  have d: "database ?s1 = database s" "database ?s2 = database s" "database ?s3 = database s"
    by (simp_all add: query_database)
  from Cons.prems(2) obtain idxs cols fks acc' where
    r: "fst (pragma_index_list eng x s) = Inr idxs"
       "fst (pragma_table_info eng x ?s1) = Inr cols"
       "fst (pragma_foreign_key_list eng x ?s2) = Inr fks"
       "fst (suggest_tables eng ts acc' ?s3) = Inr out"
    by (auto simp: fst_case Let_def split: sum.splits)
  from r(1-3) have "table_readable eng (database s) x"
    using Cons.prems(1) c by (simp add: query_results d table_readable_def)
  moreover from Cons.IH [OF c(3) r(4)] have "list_all (table_readable eng (database s)) ts"
    by (simp add: d)
  ultimately show ?case by simp
qed

lemma suggest_indexes_Inr:
  assumes "fst (suggest_indexes eng s) = Inr sgs"
  shows "connected s \<and> catalog_readable eng (database s)"
proof -
  let ?s1 = "snd (select_tables eng s)"
  from assms obtain ts where
    t: "fst (select_tables eng s) = Inr ts" and
    r: "fst (suggest_tables eng ts [] ?s1) = Inr sgs"
    by (auto simp: suggest_indexes_def fst_case split: sum.splits)
  note st = select_tables_Inr [OF t]
  from st have c: "connected ?s1" by (simp add: query_connected)
  from suggest_tables_Inr [OF c r] st show ?thesis
    by (simp add: catalog_readable_def query_database)
qed

lemma subseq_concat_map:
  "(\<And>x. x \<in> set xs \<Longrightarrow> subseq (f x) (g x)) \<Longrightarrow>
   subseq (concat (map f xs)) (concat (map g xs))"
  by (induction xs) (auto intro: list_emb_append_mono)

lemma suggest_indexes_twice:
  "fst (suggest_indexes eng (snd (suggest_indexes eng s))) = fst (suggest_indexes eng s)"
  by (rule suggest_indexes_cong) (rule sim_refl_frame [OF suggest_indexes_frame])

lemma sim_connected:
  "connected s \<Longrightarrow> connected t \<Longrightarrow> database s = database t \<Longrightarrow> sim s t"
  by (auto simp: sim_def connected_def split: option.splits)

lemma shop_suggest_indexes:
  "fst (suggest_indexes shop (opened shop_plain)) =
     Inr [expected_suggestion ''orders'' ''customer_id'',
          expected_suggestion ''orders'' ''customer_id'',
          expected_suggestion ''orders'' ''product_id'']"
proof -
  have c: "catalog_readable shop (database (opened shop_plain))"
    by (rule shop_catalog_readable)
  show ?thesis
    by (simp add: suggest_indexes_expected [OF connected_opened c] database_opened shop_tables)
       (simp add: view_defs shop_defs)
qed

subsection \<open>The statements a pass sends\<close>

lemma query_traces:
  "connected s \<Longrightarrow>
   trace (snd (select_tables eng s)) = trace s @ [Execute (the (cursor s)) select_tables_sql]"
  "connected s \<Longrightarrow>
   trace (snd (pragma_table_info eng t s)) =
     trace s @ [Execute (the (cursor s)) (''PRAGMA table_info('' @ t @ '')'')]"
  "connected s \<Longrightarrow>
   trace (snd (pragma_index_list eng t s)) =
     trace s @ [Execute (the (cursor s)) (''PRAGMA index_list('' @ t @ '')'')]"
  "connected s \<Longrightarrow>
   trace (snd (pragma_foreign_key_list eng t s)) =
     trace s @ [Execute (the (cursor s)) (''PRAGMA foreign_key_list('' @ t @ '')'')]"
  "connected s \<Longrightarrow>
   trace (snd (select_samples eng c t s)) =
     trace s @ [Execute (the (cursor s)) (''SELECT '' @ c @ '' FROM '' @ t @ '' LIMIT 100'')]"
  by (simp_all add: query_defs cursor_query_trace)

lemma table_readableD:
  assumes "table_readable eng d x"
  obtains cols idxs fks where
    "sq_table_info eng d x = Inr cols" "sq_index_list eng d x = Inr idxs"
    "sq_foreign_key_list eng d x = Inr fks"
  using assms
  by (cases "sq_table_info eng d x"; cases "sq_index_list eng d x";
      cases "sq_foreign_key_list eng d x") (auto simp: table_readable_def)

lemma analyze_tables_trace:
  "connected s \<Longrightarrow> list_all (table_readable eng (database s)) ts \<Longrightarrow>
   trace (snd (analyze_tables eng ts acc s)) =
     trace s @ concat (map (\<lambda>t.
       [Execute (the (cursor s)) (''PRAGMA table_info('' @ t @ '')''),
        Execute (the (cursor s)) (''PRAGMA index_list('' @ t @ '')''),
        Execute (the (cursor s)) (''PRAGMA foreign_key_list('' @ t @ '')'')]) ts)"
proof (induction ts arbitrary: acc s)
  case Nil
  show ?case by simp
next
  case (Cons x ts)
  let ?d = "database s"
  let ?s1 = "snd (pragma_table_info eng x s)"
  let ?s2 = "snd (pragma_index_list eng x ?s1)"
  let ?s3 = "snd (pragma_foreign_key_list eng x ?s2)"
  from Cons.prems(2) have "table_readable eng ?d x" by simp
  then obtain cols idxs fks where r:
    "sq_table_info eng ?d x = Inr cols" "sq_index_list eng ?d x = Inr idxs"
    "sq_foreign_key_list eng ?d x = Inr fks"
    by (rule table_readableD)
  have c: "connected ?s1" "connected ?s2" "connected ?s3"
    using Cons.prems(1) by (simp_all add: query_connected)
  have d: "database ?s1 = ?d" "database ?s2 = ?d" "database ?s3 = ?d"
    by (simp_all add: query_database)
  have k: "cursor ?s1 = cursor s" "cursor ?s2 = cursor s" "cursor ?s3 = cursor s"
    by (simp_all add: query_cursor)
  have ih: "trace (snd (analyze_tables eng ts acc' ?s3)) =
     trace ?s3 @ concat (map (\<lambda>t.
       [Execute (the (cursor s)) (''PRAGMA table_info('' @ t @ '')''),
        Execute (the (cursor s)) (''PRAGMA index_list('' @ t @ '')''),
        Execute (the (cursor s)) (''PRAGMA foreign_key_list('' @ t @ '')'')]) ts)" for acc'
    using Cons.IH [OF c(3), of acc'] Cons.prems(2) by (simp add: d k)
  show ?case
    using Cons.prems(1) c r
    by (simp add: snd_case query_results d k ih query_traces)
qed

lemma suggest_tables_trace:
  "connected s \<Longrightarrow> list_all (table_readable eng (database s)) ts \<Longrightarrow>
   trace (snd (suggest_tables eng ts acc s)) =
     trace s @ concat (map (\<lambda>t.
       [Execute (the (cursor s)) (''PRAGMA index_list('' @ t @ '')''),
        Execute (the (cursor s)) (''PRAGMA table_info('' @ t @ '')''),
        Execute (the (cursor s)) (''PRAGMA foreign_key_list('' @ t @ '')'')]) ts)"
proof (induction ts arbitrary: acc s)
  case Nil
  show ?case by simp
next
  case (Cons x ts)
  let ?d = "database s"
  let ?s1 = "snd (pragma_index_list eng x s)"
  let ?s2 = "snd (pragma_table_info eng x ?s1)"
  let ?s3 = "snd (pragma_foreign_key_list eng x ?s2)"
  from Cons.prems(2) have "table_readable eng ?d x" by simp
  then obtain cols idxs fks where r:
    "sq_table_info eng ?d x = Inr cols" "sq_index_list eng ?d x = Inr idxs"
    "sq_foreign_key_list eng ?d x = Inr fks"
    by (rule table_readableD)
  have c: "connected ?s1" "connected ?s2" "connected ?s3"
    using Cons.prems(1) by (simp_all add: query_connected)
  have d: "database ?s1 = ?d" "database ?s2 = ?d" "database ?s3 = ?d"
    by (simp_all add: query_database)
  have k: "cursor ?s1 = cursor s" "cursor ?s2 = cursor s" "cursor ?s3 = cursor s"
    by (simp_all add: query_cursor)
  have ih: "trace (snd (suggest_tables eng ts acc' ?s3)) =
     trace ?s3 @ concat (map (\<lambda>t.
       [Execute (the (cursor s)) (''PRAGMA index_list('' @ t @ '')''),
        Execute (the (cursor s)) (''PRAGMA table_info('' @ t @ '')''),
        Execute (the (cursor s)) (''PRAGMA foreign_key_list('' @ t @ '')'')]) ts)" for acc'
    using Cons.IH [OF c(3), of acc'] Cons.prems(2) by (simp add: d k)
  show ?case
    using Cons.prems(1) c r
    by (simp add: snd_case query_results d k ih query_traces Let_def)
qed

lemma check_columns_trace:
  "connected s \<Longrightarrow>
   list_all (\<lambda>c. \<not> isl (sq_select eng (database s) (col_name c) t)) cols \<Longrightarrow>
   trace (snd (check_columns eng t cols acc s)) =
     trace s @ map (\<lambda>c. Execute (the (cursor s))
       (''SELECT '' @ col_name c @ '' FROM '' @ t @ '' LIMIT 100'')) cols"
proof (induction cols arbitrary: acc s)
  case Nil
  show ?case by simp
next
  case (Cons c cols)
  let ?d = "database s"
  let ?s1 = "snd (select_samples eng (col_name c) t s)"
  from Cons.prems obtain vs where r: "sq_select eng ?d (col_name c) t = Inr vs"
    by (cases "sq_select eng ?d (col_name c) t") auto
  have c1: "connected ?s1" using Cons.prems(1) by (simp add: query_connected)
  have d1: "database ?s1 = ?d" by (simp add: query_database)
  have k1: "cursor ?s1 = cursor s" by (simp add: query_cursor)
  have ih: "trace (snd (check_columns eng t cols acc' ?s1)) =
     trace ?s1 @ map (\<lambda>c. Execute (the (cursor s))
       (''SELECT '' @ col_name c @ '' FROM '' @ t @ '' LIMIT 100'')) cols" for acc'
    using Cons.IH [OF c1, of acc'] Cons.prems(2) by (simp add: d1 k1)
  show ?case
    using Cons.prems(1) r
    by (simp add: snd_case query_results ih query_traces)
qed

lemma check_tables_trace:
  "connected s \<Longrightarrow> list_all (table_samples_readable eng (database s)) ts \<Longrightarrow>
   trace (snd (check_tables eng ts acc s)) =
     trace s @ concat (map (\<lambda>t.
       Execute (the (cursor s)) (''PRAGMA table_info('' @ t @ '')'') #
       map (\<lambda>c. Execute (the (cursor s))
         (''SELECT '' @ col_name c @ '' FROM '' @ t @ '' LIMIT 100''))
         (columns_of eng (database s) t)) ts)"
proof (induction ts arbitrary: acc s)
  case Nil
  show ?case by simp
next
  case (Cons x ts)
  let ?d = "database s"
  let ?s1 = "snd (pragma_table_info eng x s)"
  from Cons.prems obtain cols where r: "sq_table_info eng ?d x = Inr cols"
    by (cases "sq_table_info eng ?d x") (auto simp: table_samples_readable_def)
  have c1: "connected ?s1" using Cons.prems(1) by (simp add: query_connected)
  have d1: "database ?s1 = ?d" by (simp add: query_database)
  have k1: "cursor ?s1 = cursor s" by (simp add: query_cursor)
  have cr: "list_all (\<lambda>c. \<not> isl (sq_select eng (database ?s1) (col_name c) x)) cols"
    using Cons.prems(2) r by (simp add: table_samples_readable_def columns_of_def d1)
  let ?s2 = "snd (check_columns eng x cols acc ?s1)"
  have f2: "frame ?s1 ?s2" by (rule check_columns_frame)
  have c2: "connected ?s2" using c1 frame_connected [OF f2] by simp
  have d2: "database ?s2 = ?d" using d1 frame_database [OF f2] by simp
  have k2: "cursor ?s2 = cursor s" using k1 frame_cursor [OF f2] by simp
  have ih: "trace (snd (check_tables eng ts acc' ?s2)) =
     trace ?s2 @ concat (map (\<lambda>t.
       Execute (the (cursor s)) (''PRAGMA table_info('' @ t @ '')'') #
       map (\<lambda>c. Execute (the (cursor s))
         (''SELECT '' @ col_name c @ '' FROM '' @ t @ '' LIMIT 100''))
         (columns_of eng ?d t)) ts)" for acc'
    using Cons.IH [OF c2, of acc'] Cons.prems(2) by (simp add: d2 k2)
  show ?case
    using Cons.prems(1) r
    by (simp add: snd_case query_results check_columns_readable [OF c1 cr]
          check_columns_trace [OF c1 cr] d1 k1 ih columns_of_def query_traces)
qed


lemma analyze_table_structure_trace:
  assumes "connected s" and "catalog_readable eng (database s)"
  shows "trace (snd (analyze_table_structure eng s)) =
     trace s @ Execute (the (cursor s)) select_tables_sql # concat (map (\<lambda>t.
       [Execute (the (cursor s)) (''PRAGMA table_info('' @ t @ '')''),
        Execute (the (cursor s)) (''PRAGMA index_list('' @ t @ '')''),
        Execute (the (cursor s)) (''PRAGMA foreign_key_list('' @ t @ '')'')])
       (tables_of eng (database s)))"
proof -
  let ?s1 = "snd (select_tables eng s)"
  have c: "connected ?s1" using assms(1) by (simp add: query_connected)
  have d: "database ?s1 = database s" by (simp add: query_database)
  have k: "cursor ?s1 = cursor s" by (simp add: query_cursor)
  from assms(2) have m: "\<not> isl (sq_master eng (database s))"
    and r: "list_all (table_readable eng (database ?s1)) (tables_of eng (database s))"
    by (simp_all add: catalog_readable_def d)
  show ?thesis
    using select_tables_readable [OF assms(1) m] analyze_tables_trace [OF c r, of "[]"]
    by (simp add: analyze_table_structure_def snd_case d k query_traces assms(1))
qed

lemma suggest_indexes_trace:
  assumes "connected s" and "catalog_readable eng (database s)"
  shows "trace (snd (suggest_indexes eng s)) =
     trace s @ Execute (the (cursor s)) select_tables_sql # concat (map (\<lambda>t.
       [Execute (the (cursor s)) (''PRAGMA index_list('' @ t @ '')''),
        Execute (the (cursor s)) (''PRAGMA table_info('' @ t @ '')''),
        Execute (the (cursor s)) (''PRAGMA foreign_key_list('' @ t @ '')'')])
       (tables_of eng (database s)))"
proof -
  let ?s1 = "snd (select_tables eng s)"
  have c: "connected ?s1" using assms(1) by (simp add: query_connected)
  have d: "database ?s1 = database s" by (simp add: query_database)
  have k: "cursor ?s1 = cursor s" by (simp add: query_cursor)
  from assms(2) have m: "\<not> isl (sq_master eng (database s))"
    and r: "list_all (table_readable eng (database ?s1)) (tables_of eng (database s))"
    by (simp_all add: catalog_readable_def d)
  show ?thesis
    using select_tables_readable [OF assms(1) m] suggest_tables_trace [OF c r, of "[]"]
    by (simp add: suggest_indexes_def snd_case d k query_traces assms(1))
qed

lemma check_normalization_trace:
  assumes "connected s" and "samples_readable eng (database s)"
  shows "trace (snd (check_normalization eng s)) =
     trace s @ Execute (the (cursor s)) select_tables_sql # concat (map (\<lambda>t.
       Execute (the (cursor s)) (''PRAGMA table_info('' @ t @ '')'') #
       map (\<lambda>c. Execute (the (cursor s))
         (''SELECT '' @ col_name c @ '' FROM '' @ t @ '' LIMIT 100''))
         (columns_of eng (database s) t))
       (tables_of eng (database s)))"
proof -
  let ?s1 = "snd (select_tables eng s)"
  have c: "connected ?s1" using assms(1) by (simp add: query_connected)
  have d: "database ?s1 = database s" by (simp add: query_database)
  have k: "cursor ?s1 = cursor s" by (simp add: query_cursor)
  from assms(2) have m: "\<not> isl (sq_master eng (database s))"
    and r: "list_all (table_samples_readable eng (database ?s1)) (tables_of eng (database s))"
    by (simp_all add: samples_readable_def d)
  show ?thesis
    using select_tables_readable [OF assms(1) m] check_tables_trace [OF c r, of "[]"]
    by (simp add: check_normalization_def snd_case d k query_traces assms(1))
qed

subsection \<open>connect, close and commit\<close>

lemma connect_ok:
  assumes "sq_connect eng (db_path s) (database s) = None"
  shows "fst (connect eng s) = Inr ()"
    and "conn (snd (connect eng s)) = Some (next_conn s)"
    and "cursor (snd (connect eng s)) = Some (next_conn s)"
    and "open_conns (snd (connect eng s)) = insert (next_conn s) (open_conns s)"
    and "next_conn (snd (connect eng s)) = Suc (next_conn s)"
    and "database (snd (connect eng s)) = database s"
    and "db_path (snd (connect eng s)) = db_path s"
    and "trace (snd (connect eng s)) = trace s @ [Connect (db_path s)]"
    and "logger (snd (connect eng s)) =
           logger s @ [(INFO, ''Successfully connected to database: '' @ db_path s)]"
    and "connected (snd (connect eng s))"
  using assms by (simp_all add: connect_def Let_def logger_info_def connected_def)

lemma connect_fail:
  assumes "sq_connect eng (db_path s) (database s) = Some e"
  shows "fst (connect eng s) = Inl e"
    and "conn (snd (connect eng s)) = conn s"
    and "cursor (snd (connect eng s)) = cursor s"
    and "open_conns (snd (connect eng s)) = open_conns s"
    and "next_conn (snd (connect eng s)) = next_conn s"
    and "database (snd (connect eng s)) = database s"
    and "db_path (snd (connect eng s)) = db_path s"
    and "trace (snd (connect eng s)) = trace s @ [Connect (db_path s)]"
    and "logger (snd (connect eng s)) =
           logger s @ (if is_sqlite3_Error e
                       then [(ERROR, ''Error connecting to database: '' @ str_exc e)] else [])"
  using assms by (simp_all add: connect_def Let_def logger_error_def)

lemma connect_result:
  "fst (connect eng s) =
     (case sq_connect eng (db_path s) (database s) of None \<Rightarrow> Inr () | Some e \<Rightarrow> Inl e)"
  by (simp add: connect_def Let_def split: option.splits)

lemma close_None: "conn s = None \<Longrightarrow> close s = s"
  by (simp add: close_def)

lemma close_Some:
  assumes "conn s = Some h"
  shows "open_conns (close s) = open_conns s - {h}"
    and "trace (close s) = trace s @ [Close h]"
    and "logger (close s) = logger s @ [(INFO, ''Database connection closed'')]"
  using assms by (simp_all add: close_def logger_info_def)

lemma close_effect:
  "open_conns (close s) = (case conn s of None \<Rightarrow> open_conns s | Some h \<Rightarrow> open_conns s - {h})"
  "trace (close s) = trace s @ (case conn s of None \<Rightarrow> [] | Some h \<Rightarrow> [Close h])"
  "logger (close s) =
     logger s @ (case conn s of None \<Rightarrow> [] | Some h \<Rightarrow> [(INFO, ''Database connection closed'')])"
  by (simp_all add: close_def logger_info_def split: option.splits)

lemma close_fields [simp]:
  "conn (close s) = conn s" "cursor (close s) = cursor s" "database (close s) = database s"
  "db_path (close s) = db_path s" "next_conn (close s) = next_conn s"
  by (simp_all add: close_def logger_info_def split: option.splits)

lemma logger_error_fields [simp]:
  "conn (logger_error m s) = conn s" "cursor (logger_error m s) = cursor s"
  "database (logger_error m s) = database s" "db_path (logger_error m s) = db_path s"
  "next_conn (logger_error m s) = next_conn s" "open_conns (logger_error m s) = open_conns s"
  "trace (logger_error m s) = trace s" "logger (logger_error m s) = logger s @ [(ERROR, m)]"
  by (simp_all add: logger_error_def)

lemma logger_info_fields [simp]:
  "conn (logger_info m s) = conn s" "cursor (logger_info m s) = cursor s"
  "database (logger_info m s) = database s" "db_path (logger_info m s) = db_path s"
  "next_conn (logger_info m s) = next_conn s" "open_conns (logger_info m s) = open_conns s"
  "trace (logger_info m s) = trace s" "logger (logger_info m s) = logger s @ [(INFO, m)]"
  by (simp_all add: logger_info_def)

lemma report_try_connect_fail:
  assumes "sq_connect eng (db_path s) (database s) = Some e"
  shows "report_try eng s = (Inl e, snd (connect eng s))"
  using connect_fail(1) [OF assms] by (cases "connect eng s") (simp add: report_try_def)

lemma optimization_try_connect_fail:
  assumes "sq_connect eng (db_path s) (database s) = Some e"
  shows "optimization_try eng oi v s = (Inl e, snd (connect eng s))"
  using connect_fail(1) [OF assms] by (cases "connect eng s") (simp add: optimization_try_def)

lemma conn_commit_open:
  assumes "conn s = Some h" and "h \<in> open_conns s"
  shows "conn_commit eng s =
     (case sq_commit eng (database s) of
        Inl e \<Rightarrow> (Inl e, s\<lparr>trace := trace s @ [Commit h]\<rparr>)
      | Inr d \<Rightarrow> (Inr (), s\<lparr>database := d, trace := trace s @ [Commit h]\<rparr>))"
  using assms by (simp add: conn_commit_def)

lemma optimization_try_nothing:
  assumes "sq_connect eng (db_path s) (database s) = None"
  shows "optimization_try eng False False s = conn_commit eng (snd (connect eng s))"
  using connect_ok(1) [OF assms] by (cases "connect eng s") (simp add: optimization_try_def)

subsection \<open>Applying the suggestions\<close>

lemma cursor_execute_open:
  assumes "cursor s = Some h" and "h \<in> open_conns s"
  shows "cursor_execute eng sql s =
     (case sq_execute eng (database s) sql of
        Inl e \<Rightarrow> (Inl e, s\<lparr>trace := trace s @ [Execute h sql]\<rparr>)
      | Inr d \<Rightarrow> (Inr (), s\<lparr>database := d, trace := trace s @ [Execute h sql]\<rparr>))"
  using assms by (simp add: cursor_execute_def)

lemma apply_suggestions_attempts:
  "cursor s = Some h \<Longrightarrow> h \<in> open_conns s \<Longrightarrow>
   \<forall>x \<in> set sgs. \<forall>d e. sq_execute eng d (sg_sql x) = Inl e \<longrightarrow> is_sqlite3_Error e \<Longrightarrow>
   apply_suggestions eng sgs s =
     (Inr (), s\<lparr>database := attempt_each eng (database s) (map sg_sql sgs),
                trace := trace s @ map (\<lambda>x. Execute h (sg_sql x)) sgs,
                logger := logger s @ attempt_log eng (database s) (map sg_sql sgs)\<rparr>)"
proof (induction sgs arbitrary: s)
  case Nil
  show ?case by simp
next
  case (Cons x sgs)
  note ce = cursor_execute_open [OF Cons.prems(1,2), of eng "sg_sql x"]
  from Cons.prems(3) have rest:
    "\<forall>x \<in> set sgs. \<forall>d e. sq_execute eng d (sg_sql x) = Inl e \<longrightarrow> is_sqlite3_Error e"
    by simp
  show ?case
  proof (cases "sq_execute eng (database s) (sg_sql x)")
    case (Inl e)
    with Cons.prems(3) have e: "is_sqlite3_Error e" by auto
    let ?s1 = "logger_error (''Error creating index: '' @ str_exc e)
                 (s\<lparr>trace := trace s @ [Execute h (sg_sql x)]\<rparr>)"
    have "cursor ?s1 = Some h" "h \<in> open_conns ?s1"
      using Cons.prems(1,2) by simp_all
    from Cons.IH [OF this rest] show ?thesis
      using Inl e ce by (simp add: logger_error_def)
  next
    case (Inr d)
    let ?s1 = "logger_info (''Created index: '' @ sg_sql x)
                 (s\<lparr>database := d, trace := trace s @ [Execute h (sg_sql x)]\<rparr>)"
    have "cursor ?s1 = Some h" "h \<in> open_conns ?s1"
      using Cons.prems(1,2) by simp_all
    from Cons.IH [OF this rest] show ?thesis
      using Inr ce by (simp add: logger_info_def)
  qed
qed


lemma frame_fields:
  assumes "frame s s'"
  shows "conn s' = conn s" "cursor s' = cursor s" "open_conns s' = open_conns s"
    "database s' = database s" "logger s' = logger s" "db_path s' = db_path s"
    "next_conn s' = next_conn s"
  using assms by (simp_all add: frame_def)

lemma optimization_try_after_indexes:
  assumes c: "sq_connect eng (db_path s) (database s) = None"
    and g: "fst (suggest_indexes eng (snd (connect eng s))) = Inr sgs"
    and f: "\<forall>x \<in> set sgs. \<forall>d e. sq_execute eng d (sg_sql x) = Inl e \<longrightarrow> is_sqlite3_Error e"
  obtains s3 where
    "optimization_try eng True False s = conn_commit eng s3"
    "optimization_try eng True True s =
       (case cursor_execute eng ''VACUUM'' s3 of
          (Inl e, s4) \<Rightarrow> (Inl e, s4)
        | (Inr u, s4) \<Rightarrow> conn_commit eng (logger_info ''Database vacuumed successfully'' s4))"
    "conn s3 = Some (next_conn s)" "cursor s3 = Some (next_conn s)"
    "open_conns s3 = insert (next_conn s) (open_conns s)"
    "database s3 = attempt_each eng (database s) (map sg_sql sgs)"
    "trace s3 = trace (snd (suggest_indexes eng (snd (connect eng s)))) @
       map (\<lambda>x. Execute (next_conn s) (sg_sql x)) sgs"
    "logger s3 = logger s @ [(INFO, ''Successfully connected to database: '' @ db_path s)] @
       attempt_log eng (database s) (map sg_sql sgs)"
proof -
  define s1 where "s1 = snd (connect eng s)"
  define s2 where "s2 = snd (suggest_indexes eng s1)"
  note ok = connect_ok [OF c, folded s1_def]
  have p1: "connect eng s = (Inr (), s1)"
    using ok(1) unfolding s1_def by (cases "connect eng s") simp
  have p2: "suggest_indexes eng s1 = (Inr sgs, s2)"
    using g unfolding s2_def s1_def by (cases "suggest_indexes eng (snd (connect eng s))") simp
  note fr = frame_fields [OF suggest_indexes_frame [of s1 eng], folded s2_def]
  have k: "cursor s2 = Some (next_conn s)" and o: "next_conn s \<in> open_conns s2"
    by (simp_all add: fr ok)
  define s3 where "s3 = s2\<lparr>database := attempt_each eng (database s2) (map sg_sql sgs),
                trace := trace s2 @ map (\<lambda>x. Execute (next_conn s) (sg_sql x)) sgs,
                logger := logger s2 @ attempt_log eng (database s2) (map sg_sql sgs)\<rparr>"
  have p3: "apply_suggestions eng sgs s2 = (Inr (), s3)"
    unfolding s3_def by (rule apply_suggestions_attempts [OF k o f])
  have a: "optimization_try eng True False s = conn_commit eng s3"
    by (simp add: optimization_try_def p1 p2 p3)
  have b: "optimization_try eng True True s =
       (case cursor_execute eng ''VACUUM'' s3 of
          (Inl e, s4) \<Rightarrow> (Inl e, s4)
        | (Inr u, s4) \<Rightarrow> conn_commit eng (logger_info ''Database vacuumed successfully'' s4))"
    by (simp add: optimization_try_def p1 p2 p3 split: prod.splits sum.splits)
  have "conn s3 = Some (next_conn s)" "cursor s3 = Some (next_conn s)"
    "open_conns s3 = insert (next_conn s) (open_conns s)"
    "database s3 = attempt_each eng (database s) (map sg_sql sgs)"
    "trace s3 = trace (snd (suggest_indexes eng (snd (connect eng s)))) @
       map (\<lambda>x. Execute (next_conn s) (sg_sql x)) sgs"
    "logger s3 = logger s @ [(INFO, ''Successfully connected to database: '' @ db_path s)] @
       attempt_log eng (database s) (map sg_sql sgs)"
    unfolding s3_def by (simp_all add: fr ok) (simp add: s2_def s1_def)
  with a b show thesis by (rule that)
qed


lemma shop_suggest_plain:
  assumes "connected s" and "applied (database s) = []"
  shows "fst (suggest_indexes shop s) =
     Inr [expected_suggestion ''orders'' ''customer_id'',
          expected_suggestion ''orders'' ''customer_id'',
          expected_suggestion ''orders'' ''product_id'']"
  using assms(2)
  by (simp add: suggest_indexes_expected [OF assms(1) shop_catalog_readable] shop_tables)
     (simp add: view_defs shop_defs)

lemma shop_execute_errors: "sq_execute shop d sql = Inl e \<Longrightarrow> is_sqlite3_Error e"
  by (auto simp: shop_def shop_execute_def split: if_splits)

lemma init_fields:
  "database (init p d) = d" "logger (init p d) = []" "db_path (init p d) = p"
  "trace (init p d) = []" "next_conn (init p d) = 0" "open_conns (init p d) = {}"
  "conn (init p d) = None" "cursor (init p d) = None"
  by (simp_all add: init_def)

lemma shop_connect:
  "sq_connect shop (db_path (init ''shop.db'' d)) (database (init ''shop.db'' d)) = None"
  by (simp add: init_def shop_def)

lemma shop_commit: "sq_commit shop d = Inr d"
  by (simp add: shop_def)

lemma shop_suggest_after_connect:
  assumes "applied d = []"
  shows "fst (suggest_indexes shop (snd (connect shop (init ''shop.db'' d)))) =
     Inr [expected_suggestion ''orders'' ''customer_id'',
          expected_suggestion ''orders'' ''customer_id'',
          expected_suggestion ''orders'' ''product_id'']"
proof (rule shop_suggest_plain)
  show "connected (snd (connect shop (init ''shop.db'' d)))"
    by (rule connect_ok(10) [OF shop_connect])
  show "applied (database (snd (connect shop (init ''shop.db'' d)))) = []"
    by (simp add: connect_ok(6) [OF shop_connect] init_fields assms)
qed

lemma shop_attempts:
  assumes "applied d = []"
  shows "attempt_each shop d
       [''CREATE INDEX idx_orders_customer_id ON orders(customer_id)'',
        ''CREATE INDEX idx_orders_customer_id ON orders(customer_id)'',
        ''CREATE INDEX idx_orders_product_id ON orders(product_id)''] =
     d\<lparr>applied := [''CREATE INDEX idx_orders_customer_id ON orders(customer_id)'',
                    ''CREATE INDEX idx_orders_product_id ON orders(product_id)'']\<rparr>"
    and "attempt_log shop d
       [''CREATE INDEX idx_orders_customer_id ON orders(customer_id)'',
        ''CREATE INDEX idx_orders_customer_id ON orders(customer_id)'',
        ''CREATE INDEX idx_orders_product_id ON orders(product_id)''] =
     [(INFO, ''Created index: CREATE INDEX idx_orders_customer_id ON orders(customer_id)''),
      (ERROR, ''Error creating index: index already exists''),
      (INFO, ''Created index: CREATE INDEX idx_orders_product_id ON orders(product_id)'')]"
  using assms
  by (simp_all add: shop_def shop_execute_def shop_indexable_def)

lemma shop_vacuum_full:
  "disk_full d \<Longrightarrow> sq_execute shop d ''VACUUM'' = Inl (sqlite3_Error ''database or disk is full'')"
  by (simp add: shop_def shop_execute_def)

lemma shop_vacuum_ok: "\<not> disk_full d \<Longrightarrow> sq_execute shop d ''VACUUM'' = Inr d"
  by (simp add: shop_def shop_execute_def)

subsection \<open>The report pass\<close>

lemma report_try_frame: "frame (snd (connect eng s)) (snd (report_try eng s))"
proof -
  let ?s1 = "snd (connect eng s)"
  let ?s2 = "snd (analyze_table_structure eng ?s1)"
  let ?s3 = "snd (check_normalization eng ?s2)"
  let ?s4 = "snd (suggest_indexes eng ?s3)"
  have f2: "frame ?s1 ?s2" by (rule analyze_table_structure_frame)
  have f3: "frame ?s1 ?s3" by (rule frame_trans [OF f2 check_normalization_frame])
  have f4: "frame ?s1 ?s4" by (rule frame_trans [OF f3 suggest_indexes_frame])
  show ?thesis
    using f2 f3 f4 by (simp add: report_try_def snd_case split: sum.splits)
qed

lemma report_try_result:
  "fst (report_try eng s) =
     (case fst (connect eng s) of
        Inl e \<Rightarrow> Inl e
      | Inr u \<Rightarrow>
          (case fst (analyze_table_structure eng (snd (connect eng s))) of
             Inl e \<Rightarrow> Inl e
           | Inr a \<Rightarrow>
               (case fst (check_normalization eng
                            (snd (analyze_table_structure eng (snd (connect eng s))))) of
                  Inl e \<Rightarrow> Inl e
                | Inr n \<Rightarrow>
                    (case fst (suggest_indexes eng
                                 (snd (check_normalization eng
                                    (snd (analyze_table_structure eng
                                       (snd (connect eng s))))))) of
                       Inl e \<Rightarrow> Inl e
                     | Inr i \<Rightarrow>
                         Inr \<lparr>table_analysis = a, normalization_issues = n,
                              index_suggestions = i,
                              query_optimizations = optimize_queries\<rparr>))))"
  by (simp add: report_try_def fst_case split: sum.splits)

lemma report_result: "fst (generate_optimization_report eng s) = fst (report_try eng s)"
  by (cases "report_try eng s"; cases "fst (report_try eng s)")
     (auto simp: generate_optimization_report_def)

lemma report_state:
  "snd (generate_optimization_report eng s) =
     close (case fst (report_try eng s) of
              Inl e \<Rightarrow> logger_error (''Error generating optimization report: '' @ str_exc e)
                         (snd (report_try eng s))
            | Inr r \<Rightarrow> snd (report_try eng s))"
  by (cases "report_try eng s"; cases "fst (report_try eng s)")
     (auto simp: generate_optimization_report_def)

lemma report_state_fields:
  "conn (snd (generate_optimization_report eng s)) = conn (snd (connect eng s))"
  "database (snd (generate_optimization_report eng s)) = database s"
  "db_path (snd (generate_optimization_report eng s)) = db_path s"
  "open_conns (snd (generate_optimization_report eng s)) =
     (case conn (snd (connect eng s)) of
        None \<Rightarrow> open_conns (snd (connect eng s))
      | Some h \<Rightarrow> open_conns (snd (connect eng s)) - {h})"
  "trace (snd (generate_optimization_report eng s)) =
     trace (snd (report_try eng s)) @
     (case conn (snd (connect eng s)) of None \<Rightarrow> [] | Some h \<Rightarrow> [Close h])"
proof -
  note fr = frame_fields [OF report_try_frame [of eng s]]
  have d: "database (snd (connect eng s)) = database s"
    and p: "db_path (snd (connect eng s)) = db_path s"
    by (cases "sq_connect eng (db_path s) (database s)";
        simp add: connect_ok connect_fail)+
  show "conn (snd (generate_optimization_report eng s)) = conn (snd (connect eng s))"
    by (simp add: report_state fr split: sum.splits)
  show "database (snd (generate_optimization_report eng s)) = database s"
    by (simp add: report_state fr d split: sum.splits)
  show "db_path (snd (generate_optimization_report eng s)) = db_path s"
    by (simp add: report_state fr p split: sum.splits)
  show "open_conns (snd (generate_optimization_report eng s)) =
     (case conn (snd (connect eng s)) of
        None \<Rightarrow> open_conns (snd (connect eng s))
      | Some h \<Rightarrow> open_conns (snd (connect eng s)) - {h})"
    by (simp add: report_state close_effect fr split: sum.splits option.splits)
  show "trace (snd (generate_optimization_report eng s)) =
     trace (snd (report_try eng s)) @
     (case conn (snd (connect eng s)) of None \<Rightarrow> [] | Some h \<Rightarrow> [Close h])"
    by (simp add: report_state close_effect fr split: sum.splits option.splits)
qed

lemma report_cong:
  assumes p: "db_path s = db_path t" and d: "database s = database t"
  shows "fst (generate_optimization_report eng s) = fst (generate_optimization_report eng t)"
proof (cases "sq_connect eng (db_path s) (database s)")
  case (Some e)
  then have "sq_connect eng (db_path t) (database t) = Some e" using p d by simp
  with Some show ?thesis
    by (simp add: report_result report_try_connect_fail)
next
  case None
  then have Nt: "sq_connect eng (db_path t) (database t) = None" using p d by simp
  note oks = connect_ok [OF None] and okt = connect_ok [OF Nt]
  let ?s1 = "snd (connect eng s)" and ?t1 = "snd (connect eng t)"
  let ?s2 = "snd (analyze_table_structure eng ?s1)"
  let ?t2 = "snd (analyze_table_structure eng ?t1)"
  let ?s3 = "snd (check_normalization eng ?s2)"
  let ?t3 = "snd (check_normalization eng ?t2)"
  have m1: "sim ?s1 ?t1"
    by (rule sim_connected) (simp_all add: oks okt d)
  have m2: "sim ?s2 ?t2"
    by (rule sim_frame [OF m1]) (rule analyze_table_structure_frame)+
  have m3: "sim ?s3 ?t3"
    by (rule sim_frame [OF m2]) (rule check_normalization_frame)+
  show ?thesis
    using analyze_table_structure_cong [OF m1, of eng] check_normalization_cong [OF m2, of eng]
      suggest_indexes_cong [OF m3, of eng]
    by (simp add: report_result report_try_result oks(1) okt(1) split: sum.splits)
qed

lemma report_twice:
  "fst (generate_optimization_report eng (snd (generate_optimization_report eng s))) =
   fst (generate_optimization_report eng s)"
  by (rule report_cong) (simp_all add: report_state_fields)

section \<open>The claims\<close>

text \<open>
  C1. On a connected cursor and a catalog whose queries succeed, \<^verbatim>\<open>suggest_indexes\<close> returns,
  table by table and foreign-key row by foreign-key row, exactly one suggestion for each row
  whose column has no index named \<^verbatim>\<open>idx_<table>_<column>\<close>, and its \<^verbatim>\<open>sql\<close> is
  \<^verbatim>\<open>CREATE INDEX idx_<table>_<column> ON <table>(<column>)\<close>. When no foreign key is covered
  there is one suggestion per foreign-key row; when every foreign key is covered the result
  is the empty list.
\<close>

theorem suggest_indexes_foreign_keys:
  assumes "connected s" and "catalog_readable eng (database s)"
  shows
    "fst (suggest_indexes eng s) =
       Inr (concat (map (\<lambda>t. map (\<lambda>fk. expected_suggestion t (fk_from fk))
              (filter (uncovered eng (database s) t) (foreign_keys_of eng (database s) t)))
            (tables_of eng (database s)))) \<and>
     ((\<forall>t \<in> set (tables_of eng (database s)).
         \<forall>fk \<in> set (foreign_keys_of eng (database s) t). uncovered eng (database s) t fk) \<longrightarrow>
      fst (suggest_indexes eng s) =
        Inr (concat (map (\<lambda>t. map (\<lambda>fk. expected_suggestion t (fk_from fk))
               (foreign_keys_of eng (database s) t))
             (tables_of eng (database s))))) \<and>
     ((\<forall>t \<in> set (tables_of eng (database s)).
         \<forall>fk \<in> set (foreign_keys_of eng (database s) t). \<not> uncovered eng (database s) t fk) \<longrightarrow>
      fst (suggest_indexes eng s) = Inr [])"
proof (intro conjI impI)
  show g: "fst (suggest_indexes eng s) =
       Inr (concat (map (\<lambda>t. map (\<lambda>fk. expected_suggestion t (fk_from fk))
              (filter (uncovered eng (database s) t) (foreign_keys_of eng (database s) t)))
            (tables_of eng (database s))))"
    by (rule suggest_indexes_expected [OF assms])
  {
    assume a: "\<forall>t \<in> set (tables_of eng (database s)).
         \<forall>fk \<in> set (foreign_keys_of eng (database s) t). uncovered eng (database s) t fk"
    have "map (\<lambda>t. map (\<lambda>fk. expected_suggestion t (fk_from fk))
              (filter (uncovered eng (database s) t) (foreign_keys_of eng (database s) t)))
            (tables_of eng (database s)) =
          map (\<lambda>t. map (\<lambda>fk. expected_suggestion t (fk_from fk))
               (foreign_keys_of eng (database s) t))
            (tables_of eng (database s))"
      using a by (intro map_cong refl) simp
    with g show "fst (suggest_indexes eng s) =
        Inr (concat (map (\<lambda>t. map (\<lambda>fk. expected_suggestion t (fk_from fk))
               (foreign_keys_of eng (database s) t))
             (tables_of eng (database s))))" by simp
  }
  {
    assume a: "\<forall>t \<in> set (tables_of eng (database s)).
         \<forall>fk \<in> set (foreign_keys_of eng (database s) t). \<not> uncovered eng (database s) t fk"
    then have "\<forall>t \<in> set (tables_of eng (database s)).
        filter (uncovered eng (database s) t) (foreign_keys_of eng (database s) t) = []"
      by (simp add: filter_empty_conv)
    with g show "fst (suggest_indexes eng s) = Inr []" by simp
  }
qed

theorem suggest_indexes_foreign_keys_witness:
  "fst (suggest_indexes shop (opened shop_plain)) =
     Inr [expected_suggestion ''orders'' ''customer_id'',
          expected_suggestion ''orders'' ''customer_id'',
          expected_suggestion ''orders'' ''product_id''] \<and>
   fst (suggest_indexes shop (opened shop_indexed)) = Inr []"
proof
  have c: "catalog_readable shop (database (opened shop_plain))"
    by (rule shop_catalog_readable)
  have u: "\<forall>t \<in> set (tables_of shop (database (opened shop_plain))).
         \<forall>fk \<in> set (foreign_keys_of shop (database (opened shop_plain)) t).
           uncovered shop (database (opened shop_plain)) t fk"
    by (simp add: database_opened shop_tables)
       (simp add: view_defs shop_defs)
  from suggest_indexes_foreign_keys [OF connected_opened c, THEN conjunct2, THEN conjunct1,
      THEN mp, OF u]
  show "fst (suggest_indexes shop (opened shop_plain)) =
     Inr [expected_suggestion ''orders'' ''customer_id'',
          expected_suggestion ''orders'' ''customer_id'',
          expected_suggestion ''orders'' ''product_id'']"
    by (simp add: database_opened shop_tables)
       (simp add: view_defs shop_defs)
next
  have c: "catalog_readable shop (database (opened shop_indexed))"
    by (rule shop_catalog_readable)
  have u: "\<forall>t \<in> set (tables_of shop (database (opened shop_indexed))).
         \<forall>fk \<in> set (foreign_keys_of shop (database (opened shop_indexed)) t).
           \<not> uncovered shop (database (opened shop_indexed)) t fk"
    by (simp add: database_opened shop_tables)
       (simp add: view_defs shop_defs)
  from suggest_indexes_foreign_keys [OF connected_opened c, THEN conjunct2, THEN conjunct2,
      THEN mp, OF u]
  show "fst (suggest_indexes shop (opened shop_indexed)) = Inr []" .
qed

text \<open>
  C2. On a connected cursor, with the column lists and the sample queries succeeding,
  \<^verbatim>\<open>check_normalization\<close> returns, in table, column and sample order, what the loop body
  emits for each sampled value. For a string with none of the characters comma, semicolon,
  bar and slash the body emits nothing; for a string with at least one of them it emits
  exactly one issue, whose \<^verbatim>\<open>sample\<close> is that string.
\<close>

theorem check_normalization_per_sample:
  assumes "connected s" and "samples_readable eng (database s)"
  shows
    "fst (check_normalization eng s) =
       Inr (concat (map (\<lambda>t. concat (map (\<lambda>c. concat (map (\<lambda>v.
              check_sample t (col_name c) v []) (samples_of eng (database s) t (col_name c))))
                (columns_of eng (database s) t))) (tables_of eng (database s)))) \<and>
     (\<forall>t c x. \<not> has_delimiter x \<longrightarrow> check_sample t c (Text x) [] = []) \<and>
     (\<forall>t c x. has_delimiter x \<longrightarrow>
        check_sample t c (Text x) [] =
          [\<lparr>ni_table = t, ni_column = c,
            ni_issue = ''Possible 1NF violation - multiple values in single column'',
            ni_sample = Text x\<rparr>])"
  using check_normalization_readable [OF assms] by (simp add: check_sample_Text)

theorem check_normalization_per_sample_witness:
  "connected (opened shop_plain) \<and> samples_readable shop (database (opened shop_plain)) \<and>
   fst (check_normalization shop (opened shop_plain)) =
     Inr [\<lparr>ni_table = ''orders'', ni_column = ''notes'',
           ni_issue = ''Possible 1NF violation - multiple values in single column'',
           ni_sample = Text ''a,b,c''\<rparr>,
          \<lparr>ni_table = ''orders'', ni_column = ''notes'',
           ni_issue = ''Possible 1NF violation - multiple values in single column'',
           ni_sample = Text ''ring 555/0100''\<rparr>] \<and>
   \<not> has_delimiter ''gift wrap'' \<and>
   check_sample ''orders'' ''notes'' (Text ''gift wrap'') [] = [] \<and>
   has_delimiter ''a,b,c'' \<and>
   check_sample ''orders'' ''notes'' (Text ''a,b,c'') [] =
     [\<lparr>ni_table = ''orders'', ni_column = ''notes'',
       ni_issue = ''Possible 1NF violation - multiple values in single column'',
       ni_sample = Text ''a,b,c''\<rparr>]"
proof -
  have r: "samples_readable shop (database (opened shop_plain))"
    by (simp add: database_opened shop_samples_readable)
  have n: "\<not> has_delimiter ''gift wrap''" and y: "has_delimiter ''a,b,c''"
    by (simp_all add: has_delimiter_def)
  note w = check_normalization_per_sample [OF connected_opened r]
  from w have "check_sample ''orders'' ''notes'' (Text ''gift wrap'') [] = []"
    using n by blast
  moreover from w have "check_sample ''orders'' ''notes'' (Text ''a,b,c'') [] =
     [\<lparr>ni_table = ''orders'', ni_column = ''notes'',
       ni_issue = ''Possible 1NF violation - multiple values in single column'',
       ni_sample = Text ''a,b,c''\<rparr>]"
    using y by blast
  ultimately show ?thesis
    using connected_opened r n y shop_check_normalization by simp
qed

text \<open>
  C3. A foreign-key relationship is a row of \<^verbatim>\<open>PRAGMA foreign_key_list\<close> (a composite key has
  one row per column). Whenever \<^verbatim>\<open>suggest_indexes\<close> returns, its suggestions are a
  subsequence of the list with one suggestion per foreign-key row, so no row gets more than
  one; the \<^verbatim>\<open>sql\<close> of every suggestion names the index \<^verbatim>\<open>idx_<table>_<column>\<close> after the
  suggestion's own table and column; and running again, right after or from any other
  usable cursor on the same database contents, returns the same suggestions.
\<close>

theorem suggest_indexes_at_most_one_and_repeatable:
  assumes "fst (suggest_indexes eng s) = Inr sgs"
  shows
    "subseq sgs
       (concat (map (\<lambda>t. map (\<lambda>fk. expected_suggestion t (fk_from fk))
                  (foreign_keys_of eng (database s) t))
          (tables_of eng (database s)))) \<and>
     (\<forall>x \<in> set sgs.
        sg_sql x =
          ''CREATE INDEX idx_'' @ sg_table x @ ''_'' @ sg_column x @
          '' ON '' @ sg_table x @ ''('' @ sg_column x @ '')'') \<and>
     fst (suggest_indexes eng (snd (suggest_indexes eng s))) = Inr sgs \<and>
     (\<forall>s'. connected s' \<and> database s' = database s \<longrightarrow>
        fst (suggest_indexes eng s') = Inr sgs)"
proof (intro conjI ballI allI impI)
  from suggest_indexes_Inr [OF assms]
  have c: "connected s" and r: "catalog_readable eng (database s)" by simp_all
  from suggest_indexes_expected [OF c r] assms
  have e: "sgs = concat (map (\<lambda>t. map (\<lambda>fk. expected_suggestion t (fk_from fk))
            (filter (uncovered eng (database s) t) (foreign_keys_of eng (database s) t)))
          (tables_of eng (database s)))" by simp
  show "subseq sgs
       (concat (map (\<lambda>t. map (\<lambda>fk. expected_suggestion t (fk_from fk))
                  (foreign_keys_of eng (database s) t))
          (tables_of eng (database s))))"
    unfolding e by (rule subseq_concat_map) (rule subseq_map, rule subseq_filter_left)
  show "sg_sql x =
          ''CREATE INDEX idx_'' @ sg_table x @ ''_'' @ sg_column x @
          '' ON '' @ sg_table x @ ''('' @ sg_column x @ '')''" if "x \<in> set sgs" for x
    using that unfolding e by (auto simp: expected_suggestion_def)
  show "fst (suggest_indexes eng (snd (suggest_indexes eng s))) = Inr sgs"
    using assms by (simp add: suggest_indexes_twice)
  show "fst (suggest_indexes eng s') = Inr sgs"
    if "connected s' \<and> database s' = database s" for s'
    using that suggest_indexes_cong [OF sim_connected [OF _ c], of s' eng] assms by simp
qed

theorem suggest_indexes_at_most_one_and_repeatable_witness:
  "fst (suggest_indexes shop (opened shop_plain)) =
     Inr [expected_suggestion ''orders'' ''customer_id'',
          expected_suggestion ''orders'' ''customer_id'',
          expected_suggestion ''orders'' ''product_id''] \<and>
   fst (suggest_indexes shop (snd (suggest_indexes shop (opened shop_plain)))) =
     Inr [expected_suggestion ''orders'' ''customer_id'',
          expected_suggestion ''orders'' ''customer_id'',
          expected_suggestion ''orders'' ''product_id''] \<and>
   sg_sql (expected_suggestion ''orders'' ''product_id'') =
     ''CREATE INDEX idx_orders_product_id ON orders(product_id)''"
  using suggest_indexes_at_most_one_and_repeatable [OF shop_suggest_indexes]
    shop_suggest_indexes
  by (simp add: expected_suggestion_def)

text \<open>
  C4, as claimed: the tables the three passes enumerate are user tables only. This fails on
  the shop: \<^verbatim>\<open>sqlite_sequence\<close>, a table of SQLite's own, is in the list the \<^verbatim>\<open>SELECT\<close>
  returns, and each of the three passes sends its queries for it.
\<close>

theorem table_enumeration_counterexample:
  "internal_table ''sqlite_sequence'' \<and>
   fst (select_tables shop (opened shop_plain)) =
     Inr [''customers'', ''sqlite_sequence'', ''orders''] \<and>
   Execute 0 ''PRAGMA table_info(sqlite_sequence)''
     \<in> set (trace (snd (analyze_table_structure shop (opened shop_plain)))) \<and>
   Execute 0 ''SELECT seq FROM sqlite_sequence LIMIT 100''
     \<in> set (trace (snd (check_normalization shop (opened shop_plain)))) \<and>
   Execute 0 ''PRAGMA foreign_key_list(sqlite_sequence)''
     \<in> set (trace (snd (suggest_indexes shop (opened shop_plain))))"
proof -
  have c: "catalog_readable shop (database (opened shop_plain))"
    by (rule shop_catalog_readable)
  have r: "samples_readable shop (database (opened shop_plain))"
    by (simp add: database_opened shop_samples_readable)
  have m: "\<not> isl (sq_master shop (database (opened shop_plain)))"
    by (simp add: shop_def)
  have k: "cursor (opened shop_plain) = Some 0"
    by (simp add: opened_def)
  have "internal_table ''sqlite_sequence''"
    by (simp add: internal_table_def)
  moreover have "fst (select_tables shop (opened shop_plain)) =
     Inr [''customers'', ''sqlite_sequence'', ''orders'']"
    by (simp add: select_tables_readable [OF connected_opened m] shop_tables)
  moreover have "Execute 0 ''PRAGMA table_info(sqlite_sequence)''
     \<in> set (trace (snd (analyze_table_structure shop (opened shop_plain))))"
    by (simp add: analyze_table_structure_trace [OF connected_opened c] database_opened
          shop_tables k)
  moreover have "Execute 0 ''SELECT seq FROM sqlite_sequence LIMIT 100''
     \<in> set (trace (snd (check_normalization shop (opened shop_plain))))"
    by (simp add: check_normalization_trace [OF connected_opened r] database_opened
          shop_tables k)
       (simp add: columns_of_def shop_defs)
  moreover have "Execute 0 ''PRAGMA foreign_key_list(sqlite_sequence)''
     \<in> set (trace (snd (suggest_indexes shop (opened shop_plain))))"
    by (simp add: suggest_indexes_trace [OF connected_opened c] database_opened
          shop_tables k)
  ultimately show ?thesis by blast
qed

text \<open>
  C4, amended: on a usable cursor the three passes enumerate exactly the names of the
  \<^verbatim>\<open>sqlite_master\<close> rows whose type is \<^verbatim>\<open>table\<close>, in the order of the rows (so indexes, views
  and triggers are left out, and a table of SQLite's own that is stored with that type is
  not): when the queries succeed, each pass sends the table listing and then, table by
  table in that order, its queries for that table.
\<close>

theorem table_enumeration_type_table:
  assumes "cursor s = Some h" and "h \<in> open_conns s"
    and "sq_master eng (database s) = Inr rows"
    and "ts = map m_name (filter (\<lambda>r. m_type r = ''table'') rows)"
  shows
    "(list_all (table_readable eng (database s)) ts \<longrightarrow>
        trace (snd (analyze_table_structure eng s)) =
          trace s @ Execute h select_tables_sql # concat (map (\<lambda>t.
            [Execute h (''PRAGMA table_info('' @ t @ '')''),
             Execute h (''PRAGMA index_list('' @ t @ '')''),
             Execute h (''PRAGMA foreign_key_list('' @ t @ '')'')]) ts) \<and>
        trace (snd (suggest_indexes eng s)) =
          trace s @ Execute h select_tables_sql # concat (map (\<lambda>t.
            [Execute h (''PRAGMA index_list('' @ t @ '')''),
             Execute h (''PRAGMA table_info('' @ t @ '')''),
             Execute h (''PRAGMA foreign_key_list('' @ t @ '')'')]) ts)) \<and>
     (list_all (table_samples_readable eng (database s)) ts \<longrightarrow>
        trace (snd (check_normalization eng s)) =
          trace s @ Execute h select_tables_sql # concat (map (\<lambda>t.
            Execute h (''PRAGMA table_info('' @ t @ '')'') #
            map (\<lambda>c. Execute h (''SELECT '' @ col_name c @ '' FROM '' @ t @ '' LIMIT 100''))
              (columns_of eng (database s) t)) ts))"
proof -
  have c: "connected s" using assms(1,2) by (simp add: connected_def)
  have t: "tables_of eng (database s) = ts" using assms(3,4) by (simp add: tables_of_def)
  have m: "\<not> isl (sq_master eng (database s))" using assms(3) by simp
  show ?thesis
  proof (intro conjI impI)
    assume "list_all (table_readable eng (database s)) ts"
    with m t have r: "catalog_readable eng (database s)" by (simp add: catalog_readable_def)
    show "trace (snd (analyze_table_structure eng s)) =
          trace s @ Execute h select_tables_sql # concat (map (\<lambda>t.
            [Execute h (''PRAGMA table_info('' @ t @ '')''),
             Execute h (''PRAGMA index_list('' @ t @ '')''),
             Execute h (''PRAGMA foreign_key_list('' @ t @ '')'')]) ts)"
      by (simp add: analyze_table_structure_trace [OF c r] t assms(1))
    show "trace (snd (suggest_indexes eng s)) =
          trace s @ Execute h select_tables_sql # concat (map (\<lambda>t.
            [Execute h (''PRAGMA index_list('' @ t @ '')''),
             Execute h (''PRAGMA table_info('' @ t @ '')''),
             Execute h (''PRAGMA foreign_key_list('' @ t @ '')'')]) ts)"
      by (simp add: suggest_indexes_trace [OF c r] t assms(1))
  next
    assume "list_all (table_samples_readable eng (database s)) ts"
    with m t have r: "samples_readable eng (database s)" by (simp add: samples_readable_def)
    show "trace (snd (check_normalization eng s)) =
          trace s @ Execute h select_tables_sql # concat (map (\<lambda>t.
            Execute h (''PRAGMA table_info('' @ t @ '')'') #
            map (\<lambda>c. Execute h (''SELECT '' @ col_name c @ '' FROM '' @ t @ '' LIMIT 100''))
              (columns_of eng (database s) t)) ts)"
      by (simp add: check_normalization_trace [OF c r] t assms(1))
  qed
qed

theorem table_enumeration_type_table_witness:
  "trace (snd (suggest_indexes shop (opened shop_plain))) =
     [Execute 0 select_tables_sql,
      Execute 0 ''PRAGMA index_list(customers)'',
      Execute 0 ''PRAGMA table_info(customers)'',
      Execute 0 ''PRAGMA foreign_key_list(customers)'',
      Execute 0 ''PRAGMA index_list(sqlite_sequence)'',
      Execute 0 ''PRAGMA table_info(sqlite_sequence)'',
      Execute 0 ''PRAGMA foreign_key_list(sqlite_sequence)'',
      Execute 0 ''PRAGMA index_list(orders)'',
      Execute 0 ''PRAGMA table_info(orders)'',
      Execute 0 ''PRAGMA foreign_key_list(orders)''] \<and>
   trace (snd (check_normalization shop (opened shop_plain))) =
     [Execute 0 select_tables_sql,
      Execute 0 ''PRAGMA table_info(customers)'',
      Execute 0 ''SELECT id FROM customers LIMIT 100'',
      Execute 0 ''SELECT name FROM customers LIMIT 100'',
      Execute 0 ''PRAGMA table_info(sqlite_sequence)'',
      Execute 0 ''SELECT name FROM sqlite_sequence LIMIT 100'',
      Execute 0 ''SELECT seq FROM sqlite_sequence LIMIT 100'',
      Execute 0 ''PRAGMA table_info(orders)'',
      Execute 0 ''SELECT id FROM orders LIMIT 100'',
      Execute 0 ''SELECT customer_id FROM orders LIMIT 100'',
      Execute 0 ''SELECT product_id FROM orders LIMIT 100'',
      Execute 0 ''SELECT notes FROM orders LIMIT 100'']"
proof -
  have k: "cursor (opened shop_plain) = Some 0" and o: "0 \<in> open_conns (opened shop_plain)"
    and e: "trace (opened shop_plain) = []"
    by (simp_all add: opened_def)
  have m: "sq_master shop (database (opened shop_plain)) = Inr shop_master"
    by (simp add: shop_def)
  have t: "[''customers'', ''sqlite_sequence'', ''orders''] =
      map m_name (filter (\<lambda>r. m_type r = ''table'') shop_master)"
    by (simp add: shop_master_def)
  have r: "list_all (table_readable shop (database (opened shop_plain)))
      [''customers'', ''sqlite_sequence'', ''orders'']"
    by (simp add: table_readable_def shop_def)
  have q: "list_all (table_samples_readable shop (database (opened shop_plain)))
      [''customers'', ''sqlite_sequence'', ''orders'']"
    by (simp add: database_opened) (simp add: view_defs shop_defs)
  note w = table_enumeration_type_table [OF k o m t]
  from w r have "trace (snd (suggest_indexes shop (opened shop_plain))) =
     [Execute 0 select_tables_sql,
      Execute 0 ''PRAGMA index_list(customers)'',
      Execute 0 ''PRAGMA table_info(customers)'',
      Execute 0 ''PRAGMA foreign_key_list(customers)'',
      Execute 0 ''PRAGMA index_list(sqlite_sequence)'',
      Execute 0 ''PRAGMA table_info(sqlite_sequence)'',
      Execute 0 ''PRAGMA foreign_key_list(sqlite_sequence)'',
      Execute 0 ''PRAGMA index_list(orders)'',
      Execute 0 ''PRAGMA table_info(orders)'',
      Execute 0 ''PRAGMA foreign_key_list(orders)'']"
    by (simp add: e)
  moreover from w q have "trace (snd (check_normalization shop (opened shop_plain))) =
     [Execute 0 select_tables_sql,
      Execute 0 ''PRAGMA table_info(customers)'',
      Execute 0 ''SELECT id FROM customers LIMIT 100'',
      Execute 0 ''SELECT name FROM customers LIMIT 100'',
      Execute 0 ''PRAGMA table_info(sqlite_sequence)'',
      Execute 0 ''SELECT name FROM sqlite_sequence LIMIT 100'',
      Execute 0 ''SELECT seq FROM sqlite_sequence LIMIT 100'',
      Execute 0 ''PRAGMA table_info(orders)'',
      Execute 0 ''SELECT id FROM orders LIMIT 100'',
      Execute 0 ''SELECT customer_id FROM orders LIMIT 100'',
      Execute 0 ''SELECT product_id FROM orders LIMIT 100'',
      Execute 0 ''SELECT notes FROM orders LIMIT 100'']"
    by (simp add: e database_opened) (simp add: columns_of_def shop_defs)
  ultimately show ?thesis by blast
qed

text \<open>
  C5. Let the connection open, let \<^verbatim>\<open>suggest_indexes\<close> return \<open>sgs\<close>, and let every failure
  of one of their statements be a \<^verbatim>\<open>sqlite3.Error\<close>. Then \<^verbatim>\<open>execute_optimization\<close> with
  \<^verbatim>\<open>optimize_indexes\<close> on sends every statement of \<open>sgs\<close>, in order, whatever failed before
  it; the database ends as \<open>D\<close>, each statement attempted on its own, and each failure is
  an \<^verbatim>\<open>ERROR\<close> line of the log. Without \<^verbatim>\<open>VACUUM\<close> the commit follows and its outcome is the
  outcome of the call. With \<^verbatim>\<open>VACUUM\<close> failing with \<open>e\<close> on \<open>D\<close>, the call raises \<open>e\<close>: no
  commit is made, the failure is logged by the outer handler and the connection is closed.
  With \<^verbatim>\<open>VACUUM\<close> succeeding on \<open>D\<close> (the default call), the commit follows the \<^verbatim>\<open>VACUUM\<close> and
  its outcome is the outcome of the call. In every case the new connection is closed.
\<close>

theorem execute_optimization_index_failures:
  assumes c: "sq_connect eng (db_path s) (database s) = None"
    and s2: "s2 = snd (suggest_indexes eng (snd (connect eng s)))"
    and g: "fst (suggest_indexes eng (snd (connect eng s))) = Inr sgs"
    and f: "\<forall>x \<in> set sgs. \<forall>d e. sq_execute eng d (sg_sql x) = Inl e \<longrightarrow> is_sqlite3_Error e"
    and D: "D = attempt_each eng (database s) (map sg_sql sgs)"
  shows
    "fst (execute_optimization eng True False s) =
       (case sq_commit eng D of Inl e \<Rightarrow> Inl e | Inr d \<Rightarrow> Inr ()) \<and>
     trace (snd (execute_optimization eng True False s)) =
       trace s2 @ map (\<lambda>x. Execute (next_conn s) (sg_sql x)) sgs @
       [Commit (next_conn s), Close (next_conn s)] \<and>
     database (snd (execute_optimization eng True False s)) =
       (case sq_commit eng D of Inl e \<Rightarrow> D | Inr d \<Rightarrow> d) \<and>
     open_conns (snd (execute_optimization eng True False s)) =
       open_conns s - {next_conn s} \<and>
     logger (snd (execute_optimization eng True False s)) =
       logger s @ [(INFO, ''Successfully connected to database: '' @ db_path s)] @
       attempt_log eng (database s) (map sg_sql sgs) @
       (case sq_commit eng D of
          Inl e \<Rightarrow> [(ERROR, ''Error during optimization execution: '' @ str_exc e)]
        | Inr d \<Rightarrow> []) @
       [(INFO, ''Database connection closed'')] \<and>
     (\<forall>e. sq_execute eng D ''VACUUM'' = Inl e \<longrightarrow>
        fst (execute_optimization eng True True s) = Inl e \<and>
        trace (snd (execute_optimization eng True True s)) =
          trace s2 @ map (\<lambda>x. Execute (next_conn s) (sg_sql x)) sgs @
          [Execute (next_conn s) ''VACUUM'', Close (next_conn s)] \<and>
        database (snd (execute_optimization eng True True s)) = D \<and>
        open_conns (snd (execute_optimization eng True True s)) =
          open_conns s - {next_conn s} \<and>
        logger (snd (execute_optimization eng True True s)) =
          logger s @ [(INFO, ''Successfully connected to database: '' @ db_path s)] @
          attempt_log eng (database s) (map sg_sql sgs) @
          [(ERROR, ''Error during optimization execution: '' @ str_exc e),
           (INFO, ''Database connection closed'')]) \<and>
     (\<forall>V. sq_execute eng D ''VACUUM'' = Inr V \<longrightarrow>
        fst (execute_optimization eng True True s) =
          (case sq_commit eng V of Inl e \<Rightarrow> Inl e | Inr d \<Rightarrow> Inr ()) \<and>
        trace (snd (execute_optimization eng True True s)) =
          trace s2 @ map (\<lambda>x. Execute (next_conn s) (sg_sql x)) sgs @
          [Execute (next_conn s) ''VACUUM'', Commit (next_conn s), Close (next_conn s)] \<and>
        database (snd (execute_optimization eng True True s)) =
          (case sq_commit eng V of Inl e \<Rightarrow> V | Inr d \<Rightarrow> d) \<and>
        open_conns (snd (execute_optimization eng True True s)) =
          open_conns s - {next_conn s} \<and>
        logger (snd (execute_optimization eng True True s)) =
          logger s @ [(INFO, ''Successfully connected to database: '' @ db_path s)] @
          attempt_log eng (database s) (map sg_sql sgs) @
          [(INFO, ''Database vacuumed successfully'')] @
          (case sq_commit eng V of
             Inl e \<Rightarrow> [(ERROR, ''Error during optimization execution: '' @ str_exc e)]
           | Inr d \<Rightarrow> []) @
          [(INFO, ''Database connection closed'')])"
proof -
  from c g f obtain s3 where
    a: "optimization_try eng True False s = conn_commit eng s3" and
    b: "optimization_try eng True True s =
       (case cursor_execute eng ''VACUUM'' s3 of
          (Inl e, s4) \<Rightarrow> (Inl e, s4)
        | (Inr u, s4) \<Rightarrow> conn_commit eng (logger_info ''Database vacuumed successfully'' s4))"
    and s3: "conn s3 = Some (next_conn s)" "cursor s3 = Some (next_conn s)"
    "open_conns s3 = insert (next_conn s) (open_conns s)"
    "database s3 = D"
    "trace s3 = trace s2 @ map (\<lambda>x. Execute (next_conn s) (sg_sql x)) sgs"
    "logger s3 = logger s @ [(INFO, ''Successfully connected to database: '' @ db_path s)] @
       attempt_log eng (database s) (map sg_sql sgs)"
    unfolding s2 D by (rule optimization_try_after_indexes)
  have o: "next_conn s \<in> open_conns s3" by (simp add: s3)
  note cc = conn_commit_open [OF s3(1) o, of eng]
  note ce = cursor_execute_open [OF s3(2) o, of eng "''VACUUM''"]
  have novac:
    "fst (execute_optimization eng True False s) =
       (case sq_commit eng D of Inl e \<Rightarrow> Inl e | Inr d \<Rightarrow> Inr ())"
    "trace (snd (execute_optimization eng True False s)) =
       trace s2 @ map (\<lambda>x. Execute (next_conn s) (sg_sql x)) sgs @
       [Commit (next_conn s), Close (next_conn s)]"
    "database (snd (execute_optimization eng True False s)) =
       (case sq_commit eng D of Inl e \<Rightarrow> D | Inr d \<Rightarrow> d)"
    "open_conns (snd (execute_optimization eng True False s)) =
       open_conns s - {next_conn s}"
    "logger (snd (execute_optimization eng True False s)) =
       logger s @ [(INFO, ''Successfully connected to database: '' @ db_path s)] @
       attempt_log eng (database s) (map sg_sql sgs) @
       (case sq_commit eng D of
          Inl e \<Rightarrow> [(ERROR, ''Error during optimization execution: '' @ str_exc e)]
        | Inr d \<Rightarrow> []) @
       [(INFO, ''Database connection closed'')]"
    by (cases "sq_commit eng D";
        simp add: execute_optimization_def a cc s3 close_effect)+
  have vac:
    "fst (execute_optimization eng True True s) = Inl e \<and>
        trace (snd (execute_optimization eng True True s)) =
          trace s2 @ map (\<lambda>x. Execute (next_conn s) (sg_sql x)) sgs @
          [Execute (next_conn s) ''VACUUM'', Close (next_conn s)] \<and>
        database (snd (execute_optimization eng True True s)) = D \<and>
        open_conns (snd (execute_optimization eng True True s)) =
          open_conns s - {next_conn s} \<and>
        logger (snd (execute_optimization eng True True s)) =
          logger s @ [(INFO, ''Successfully connected to database: '' @ db_path s)] @
          attempt_log eng (database s) (map sg_sql sgs) @
          [(ERROR, ''Error during optimization execution: '' @ str_exc e),
           (INFO, ''Database connection closed'')]"
    if "sq_execute eng D ''VACUUM'' = Inl e" for e
    using that by (simp add: execute_optimization_def b ce s3 close_effect)
  have vacok:
    "fst (execute_optimization eng True True s) =
          (case sq_commit eng V of Inl e \<Rightarrow> Inl e | Inr d \<Rightarrow> Inr ()) \<and>
        trace (snd (execute_optimization eng True True s)) =
          trace s2 @ map (\<lambda>x. Execute (next_conn s) (sg_sql x)) sgs @
          [Execute (next_conn s) ''VACUUM'', Commit (next_conn s), Close (next_conn s)] \<and>
        database (snd (execute_optimization eng True True s)) =
          (case sq_commit eng V of Inl e \<Rightarrow> V | Inr d \<Rightarrow> d) \<and>
        open_conns (snd (execute_optimization eng True True s)) =
          open_conns s - {next_conn s} \<and>
        logger (snd (execute_optimization eng True True s)) =
          logger s @ [(INFO, ''Successfully connected to database: '' @ db_path s)] @
          attempt_log eng (database s) (map sg_sql sgs) @
          [(INFO, ''Database vacuumed successfully'')] @
          (case sq_commit eng V of
             Inl e \<Rightarrow> [(ERROR, ''Error during optimization execution: '' @ str_exc e)]
           | Inr d \<Rightarrow> []) @
          [(INFO, ''Database connection closed'')]"
    if v: "sq_execute eng D ''VACUUM'' = Inr V" for V
  proof -
    define s4 where "s4 = logger_info ''Database vacuumed successfully''
        (s3\<lparr>database := V, trace := trace s3 @ [Execute (next_conn s) ''VACUUM'']\<rparr>)"
    have t: "optimization_try eng True True s = conn_commit eng s4"
      using v by (simp add: b ce s3 s4_def)
    have s4: "conn s4 = Some (next_conn s)" "next_conn s \<in> open_conns s4"
      "database s4 = V"
      "trace s4 = trace s2 @ map (\<lambda>x. Execute (next_conn s) (sg_sql x)) sgs @
         [Execute (next_conn s) ''VACUUM'']"
      "logger s4 = logger s @ [(INFO, ''Successfully connected to database: '' @ db_path s)] @
         attempt_log eng (database s) (map sg_sql sgs) @
         [(INFO, ''Database vacuumed successfully'')]"
      "open_conns s4 = insert (next_conn s) (open_conns s)"
      by (simp_all add: s4_def s3)
    note c4 = conn_commit_open [OF s4(1,2), of eng]
    show ?thesis
      by (cases "sq_commit eng V";
          simp add: execute_optimization_def t c4 s4 close_effect)
  qed
  from novac vac vacok show ?thesis by blast
qed

theorem execute_optimization_index_failures_witness:
  "fst (execute_optimization shop True False (init ''shop.db'' shop_plain)) = Inr () \<and>
   database (snd (execute_optimization shop True False (init ''shop.db'' shop_plain))) =
     shop_plain\<lparr>applied := [''CREATE INDEX idx_orders_customer_id ON orders(customer_id)'',
                             ''CREATE INDEX idx_orders_product_id ON orders(product_id)'']\<rparr> \<and>
   logger (snd (execute_optimization shop True False (init ''shop.db'' shop_plain))) =
     [(INFO, ''Successfully connected to database: shop.db''),
      (INFO, ''Created index: CREATE INDEX idx_orders_customer_id ON orders(customer_id)''),
      (ERROR, ''Error creating index: index already exists''),
      (INFO, ''Created index: CREATE INDEX idx_orders_product_id ON orders(product_id)''),
      (INFO, ''Database connection closed'')] \<and>
   fst (execute_optimization shop True True (init ''shop.db'' shop_plain)) = Inr () \<and>
   database (snd (execute_optimization shop True True (init ''shop.db'' shop_plain))) =
     shop_plain\<lparr>applied := [''CREATE INDEX idx_orders_customer_id ON orders(customer_id)'',
                             ''CREATE INDEX idx_orders_product_id ON orders(product_id)'']\<rparr> \<and>
   open_conns (snd (execute_optimization shop True True (init ''shop.db'' shop_plain))) = {} \<and>
   logger (snd (execute_optimization shop True True (init ''shop.db'' shop_plain))) =
     [(INFO, ''Successfully connected to database: shop.db''),
      (INFO, ''Created index: CREATE INDEX idx_orders_customer_id ON orders(customer_id)''),
      (ERROR, ''Error creating index: index already exists''),
      (INFO, ''Created index: CREATE INDEX idx_orders_product_id ON orders(product_id)''),
      (INFO, ''Database vacuumed successfully''),
      (INFO, ''Database connection closed'')] \<and>
   fst (execute_optimization shop True True
          (init ''shop.db'' (shop_plain\<lparr>disk_full := True\<rparr>))) =
     Inl (sqlite3_Error ''database or disk is full'') \<and>
   logger (snd (execute_optimization shop True True
          (init ''shop.db'' (shop_plain\<lparr>disk_full := True\<rparr>)))) =
     [(INFO, ''Successfully connected to database: shop.db''),
      (INFO, ''Created index: CREATE INDEX idx_orders_customer_id ON orders(customer_id)''),
      (ERROR, ''Error creating index: index already exists''),
      (INFO, ''Created index: CREATE INDEX idx_orders_product_id ON orders(product_id)''),
      (ERROR, ''Error during optimization execution: database or disk is full''),
      (INFO, ''Database connection closed'')]"
proof -
  have f: "\<forall>x \<in> set sgs. \<forall>d e. sq_execute shop d (sg_sql x) = Inl e \<longrightarrow> is_sqlite3_Error e"
    for sgs
    by (blast intro: shop_execute_errors)
  have p: "applied shop_plain = []" and q: "applied (shop_plain\<lparr>disk_full := True\<rparr>) = []"
    by (simp_all add: shop_plain_def)
  have u: "disk_full (shop_plain\<lparr>disk_full := True,
      applied := [''CREATE INDEX idx_orders_customer_id ON orders(customer_id)'',
                  ''CREATE INDEX idx_orders_product_id ON orders(product_id)'']\<rparr>)"
    by simp
  have k: "\<not> disk_full (shop_plain\<lparr>applied :=
        [''CREATE INDEX idx_orders_customer_id ON orders(customer_id)'',
         ''CREATE INDEX idx_orders_product_id ON orders(product_id)'']\<rparr>)"
    by (simp add: shop_plain_def)
  have D1: "shop_plain\<lparr>applied :=
        [''CREATE INDEX idx_orders_customer_id ON orders(customer_id)'',
         ''CREATE INDEX idx_orders_product_id ON orders(product_id)'']\<rparr> =
      attempt_each shop (database (init ''shop.db'' shop_plain))
        (map sg_sql [expected_suggestion ''orders'' ''customer_id'',
           expected_suggestion ''orders'' ''customer_id'',
           expected_suggestion ''orders'' ''product_id''])"
    by (simp add: init_fields expected_suggestion_def shop_attempts [OF p]
          del: attempt_each.simps)
  have D2: "shop_plain\<lparr>disk_full := True, applied :=
        [''CREATE INDEX idx_orders_customer_id ON orders(customer_id)'',
         ''CREATE INDEX idx_orders_product_id ON orders(product_id)'']\<rparr> =
      attempt_each shop (database (init ''shop.db'' (shop_plain\<lparr>disk_full := True\<rparr>)))
        (map sg_sql [expected_suggestion ''orders'' ''customer_id'',
           expected_suggestion ''orders'' ''customer_id'',
           expected_suggestion ''orders'' ''product_id''])"
    by (simp add: init_fields expected_suggestion_def shop_attempts [OF q]
          del: attempt_each.simps)
  have L: "attempt_log shop (database (init ''shop.db'' d))
        (map sg_sql [expected_suggestion ''orders'' ''customer_id'',
           expected_suggestion ''orders'' ''customer_id'',
           expected_suggestion ''orders'' ''product_id'']) =
     [(INFO, ''Created index: CREATE INDEX idx_orders_customer_id ON orders(customer_id)''),
      (ERROR, ''Error creating index: index already exists''),
      (INFO, ''Created index: CREATE INDEX idx_orders_product_id ON orders(product_id)'')]"
    if "applied d = []" for d
    by (simp add: init_fields expected_suggestion_def shop_attempts [OF that]
          del: attempt_log.simps)
  note w1 = execute_optimization_index_failures
    [OF shop_connect refl shop_suggest_after_connect [OF p] f D1,
     unfolded L [OF p] shop_commit]
  note w2 = execute_optimization_index_failures
    [OF shop_connect refl shop_suggest_after_connect [OF q] f D2,
     unfolded L [OF q]]
  from w1 have
    "fst (execute_optimization shop True False (init ''shop.db'' shop_plain)) = Inr ()"
    "database (snd (execute_optimization shop True False (init ''shop.db'' shop_plain))) =
     shop_plain\<lparr>applied := [''CREATE INDEX idx_orders_customer_id ON orders(customer_id)'',
                             ''CREATE INDEX idx_orders_product_id ON orders(product_id)'']\<rparr>"
    "logger (snd (execute_optimization shop True False (init ''shop.db'' shop_plain))) =
     [(INFO, ''Successfully connected to database: shop.db''),
      (INFO, ''Created index: CREATE INDEX idx_orders_customer_id ON orders(customer_id)''),
      (ERROR, ''Error creating index: index already exists''),
      (INFO, ''Created index: CREATE INDEX idx_orders_product_id ON orders(product_id)''),
      (INFO, ''Database connection closed'')]"
    by (simp_all add: init_fields)
  moreover from w1 shop_vacuum_ok [OF k] have
    "fst (execute_optimization shop True True (init ''shop.db'' shop_plain)) = Inr ()"
    "database (snd (execute_optimization shop True True (init ''shop.db'' shop_plain))) =
     shop_plain\<lparr>applied := [''CREATE INDEX idx_orders_customer_id ON orders(customer_id)'',
                             ''CREATE INDEX idx_orders_product_id ON orders(product_id)'']\<rparr>"
    "open_conns (snd (execute_optimization shop True True (init ''shop.db'' shop_plain))) = {}"
    "logger (snd (execute_optimization shop True True (init ''shop.db'' shop_plain))) =
     [(INFO, ''Successfully connected to database: shop.db''),
      (INFO, ''Created index: CREATE INDEX idx_orders_customer_id ON orders(customer_id)''),
      (ERROR, ''Error creating index: index already exists''),
      (INFO, ''Created index: CREATE INDEX idx_orders_product_id ON orders(product_id)''),
      (INFO, ''Database vacuumed successfully''),
      (INFO, ''Database connection closed'')]"
    by (simp_all add: init_fields)
  moreover from w2 shop_vacuum_full [OF u] have
    "fst (execute_optimization shop True True
          (init ''shop.db'' (shop_plain\<lparr>disk_full := True\<rparr>))) =
     Inl (sqlite3_Error ''database or disk is full'')"
    "logger (snd (execute_optimization shop True True
          (init ''shop.db'' (shop_plain\<lparr>disk_full := True\<rparr>)))) =
     [(INFO, ''Successfully connected to database: shop.db''),
      (INFO, ''Created index: CREATE INDEX idx_orders_customer_id ON orders(customer_id)''),
      (ERROR, ''Error creating index: index already exists''),
      (INFO, ''Created index: CREATE INDEX idx_orders_product_id ON orders(product_id)''),
      (ERROR, ''Error during optimization execution: database or disk is full''),
      (INFO, ''Database connection closed'')]"
    by (simp_all add: init_fields)
  ultimately show ?thesis by blast
qed

text \<open>
  C6. Whatever happens inside \<^verbatim>\<open>generate_optimization_report\<close>, no connection is open on
  return that was not open before, and the connection \<^verbatim>\<open>self.conn\<close> refers to is closed; when
  the connect succeeds, the new connection is the one closed, by a close call that comes
  after everything the \<^verbatim>\<open>try\<close> block did. A failure of the connect or of any of the three
  analysis steps that can fail is the exception of the call, and a report is returned only
  when every step succeeded, made of their complete results (the fourth step,
  \<^verbatim>\<open>optimize_queries\<close>, is a constant and cannot fail).
\<close>

theorem generate_optimization_report_releases:
  assumes s1: "s1 = snd (connect eng s)"
    and s2: "s2 = snd (analyze_table_structure eng s1)"
    and s3: "s3 = snd (check_normalization eng s2)"
    and out: "out = generate_optimization_report eng s"
  shows
    "open_conns (snd out) \<subseteq> open_conns s \<and>
     (\<forall>h. conn (snd out) = Some h \<longrightarrow> h \<notin> open_conns (snd out)) \<and>
     (fst (connect eng s) = Inr () \<longrightarrow>
        conn (snd out) = Some (next_conn s) \<and>
        open_conns (snd out) = open_conns s - {next_conn s} \<and>
        trace (snd out) = trace (snd (report_try eng s)) @ [Close (next_conn s)]) \<and>
     (\<forall>e. fst (connect eng s) = Inl e \<longrightarrow> fst out = Inl e) \<and>
     (\<forall>e. fst (connect eng s) = Inr () \<and> fst (analyze_table_structure eng s1) = Inl e \<longrightarrow>
        fst out = Inl e) \<and>
     (\<forall>e. fst (connect eng s) = Inr () \<and> \<not> isl (fst (analyze_table_structure eng s1)) \<and>
          fst (check_normalization eng s2) = Inl e \<longrightarrow>
        fst out = Inl e) \<and>
     (\<forall>e. fst (connect eng s) = Inr () \<and> \<not> isl (fst (analyze_table_structure eng s1)) \<and>
          \<not> isl (fst (check_normalization eng s2)) \<and> fst (suggest_indexes eng s3) = Inl e \<longrightarrow>
        fst out = Inl e) \<and>
     (\<forall>r. fst out = Inr r \<longrightarrow>
        fst (connect eng s) = Inr () \<and>
        fst (analyze_table_structure eng s1) = Inr (table_analysis r) \<and>
        fst (check_normalization eng s2) = Inr (normalization_issues r) \<and>
        fst (suggest_indexes eng s3) = Inr (index_suggestions r) \<and>
        query_optimizations r = optimize_queries)"
proof -
  note rf = report_state_fields [of eng s, folded out]
  note rr = report_result [of eng s, folded out, unfolded report_try_result, folded s1 s2 s3]
  have rel: "open_conns (snd out) \<subseteq> open_conns s \<and>
     (\<forall>h. conn (snd out) = Some h \<longrightarrow> h \<notin> open_conns (snd out)) \<and>
     (fst (connect eng s) = Inr () \<longrightarrow>
        conn (snd out) = Some (next_conn s) \<and>
        open_conns (snd out) = open_conns s - {next_conn s} \<and>
        trace (snd out) = trace (snd (report_try eng s)) @ [Close (next_conn s)])"
  proof (cases "sq_connect eng (db_path s) (database s)")
    case None
    note ok = connect_ok [OF None]
    show ?thesis by (auto simp: rf ok)
  next
    case (Some e)
    note fl = connect_fail [OF Some]
    show ?thesis by (auto simp: rf fl split: option.splits)
  qed
  have errs: "(\<forall>e. fst (connect eng s) = Inl e \<longrightarrow> fst out = Inl e) \<and>
     (\<forall>e. fst (connect eng s) = Inr () \<and> fst (analyze_table_structure eng s1) = Inl e \<longrightarrow>
        fst out = Inl e) \<and>
     (\<forall>e. fst (connect eng s) = Inr () \<and> \<not> isl (fst (analyze_table_structure eng s1)) \<and>
          fst (check_normalization eng s2) = Inl e \<longrightarrow>
        fst out = Inl e) \<and>
     (\<forall>e. fst (connect eng s) = Inr () \<and> \<not> isl (fst (analyze_table_structure eng s1)) \<and>
          \<not> isl (fst (check_normalization eng s2)) \<and> fst (suggest_indexes eng s3) = Inl e \<longrightarrow>
        fst out = Inl e)"
    by (auto simp: rr split: sum.splits)
  have whole: "\<forall>r. fst out = Inr r \<longrightarrow>
        fst (connect eng s) = Inr () \<and>
        fst (analyze_table_structure eng s1) = Inr (table_analysis r) \<and>
        fst (check_normalization eng s2) = Inr (normalization_issues r) \<and>
        fst (suggest_indexes eng s3) = Inr (index_suggestions r) \<and>
        query_optimizations r = optimize_queries"
    by (auto simp: rr split: sum.splits)
  from rel errs whole show ?thesis by blast
qed


theorem generate_optimization_report_releases_witness:
  "fst (connect shop (init ''shop.db'' (shop_plain\<lparr>malformed := True\<rparr>))) = Inr () \<and>
   \<not> isl (fst (analyze_table_structure shop
          (snd (connect shop (init ''shop.db'' (shop_plain\<lparr>malformed := True\<rparr>)))))) \<and>
   fst (check_normalization shop (snd (analyze_table_structure shop
          (snd (connect shop (init ''shop.db'' (shop_plain\<lparr>malformed := True\<rparr>))))))) =
     Inl (sqlite3_Error ''database disk image is malformed'') \<and>
   fst (generate_optimization_report shop (init ''shop.db'' (shop_plain\<lparr>malformed := True\<rparr>))) =
     Inl (sqlite3_Error ''database disk image is malformed'') \<and>
   conn (snd (generate_optimization_report shop
          (init ''shop.db'' (shop_plain\<lparr>malformed := True\<rparr>)))) = Some 0 \<and>
   open_conns (snd (generate_optimization_report shop
          (init ''shop.db'' (shop_plain\<lparr>malformed := True\<rparr>)))) = {}"
proof -
  let ?s = "init ''shop.db'' (shop_plain\<lparr>malformed := True\<rparr>)"
  have c: "fst (connect shop ?s) = Inr ()"
    by code_simp
  have a: "\<not> isl (fst (analyze_table_structure shop (snd (connect shop ?s))))"
    by code_simp
  have n: "fst (check_normalization shop (snd (analyze_table_structure shop
          (snd (connect shop ?s))))) =
     Inl (sqlite3_Error ''database disk image is malformed'')"
    by code_simp
  note w = generate_optimization_report_releases [OF refl refl refl refl, of shop ?s]
  from w c a n have
    "fst (generate_optimization_report shop ?s) =
       Inl (sqlite3_Error ''database disk image is malformed'')"
    by blast
  moreover from w c have
    "conn (snd (generate_optimization_report shop ?s)) = Some (next_conn ?s)"
    "open_conns (snd (generate_optimization_report shop ?s)) = open_conns ?s - {next_conn ?s}"
    by blast+
  ultimately show ?thesis using c a n by (simp add: init_fields)
qed

text \<open>
  C7. The report pass leaves the database contents as they are, and its outcome depends on
  nothing but the path and those contents. So when a run returns the report \<open>r\<close>, the next
  run on the state it left returns \<open>r\<close> again, and so does a run from any other state of
  the optimizer on the same path and contents: the same \<^verbatim>\<open>index_suggestions\<close> (names and
  SQL text, in the same order) and the same \<^verbatim>\<open>table_analysis\<close>.
\<close>

theorem generate_optimization_report_idempotent:
  assumes "fst (generate_optimization_report eng s) = Inr r"
  shows
    "database (snd (generate_optimization_report eng s)) = database s \<and>
     fst (generate_optimization_report eng (snd (generate_optimization_report eng s))) = Inr r \<and>
     (\<forall>s' r'. db_path s' = db_path s \<and> database s' = database s \<and>
        fst (generate_optimization_report eng s') = Inr r' \<longrightarrow>
        index_suggestions r' = index_suggestions r \<and>
        map sg_sql (index_suggestions r') = map sg_sql (index_suggestions r) \<and>
        table_analysis r' = table_analysis r \<and> r' = r) \<and>
     (\<forall>s'. db_path s' = db_path s \<and> database s' = database s \<longrightarrow>
        fst (generate_optimization_report eng s') = Inr r)"
proof (intro conjI allI impI)
  show "database (snd (generate_optimization_report eng s)) = database s"
    by (rule report_state_fields)
  show "fst (generate_optimization_report eng (snd (generate_optimization_report eng s))) = Inr r"
    using assms by (simp add: report_twice)
  show "fst (generate_optimization_report eng s') = Inr r"
    if "db_path s' = db_path s \<and> database s' = database s" for s'
    using that report_cong [of s' s eng] assms by simp
  fix s' r'
  assume h: "db_path s' = db_path s \<and> database s' = database s \<and>
        fst (generate_optimization_report eng s') = Inr r'"
  with report_cong [of s' s eng] assms have e: "r' = r" by simp
  then show "index_suggestions r' = index_suggestions r"
    and "map sg_sql (index_suggestions r') = map sg_sql (index_suggestions r)"
    and "table_analysis r' = table_analysis r" and "r' = r"
    by simp_all
qed

theorem generate_optimization_report_idempotent_witness:
  "\<not> isl (fst (generate_optimization_report shop (init ''shop.db'' shop_plain))) \<and>
   fst (generate_optimization_report shop
          (snd (generate_optimization_report shop (init ''shop.db'' shop_plain)))) =
     fst (generate_optimization_report shop (init ''shop.db'' shop_plain)) \<and>
   index_suggestions (projr (fst (generate_optimization_report shop
          (snd (generate_optimization_report shop (init ''shop.db'' shop_plain)))))) =
     [expected_suggestion ''orders'' ''customer_id'',
      expected_suggestion ''orders'' ''customer_id'',
      expected_suggestion ''orders'' ''product_id'']"
proof -
  let ?s = "init ''shop.db'' shop_plain"
  have a: "\<not> isl (fst (generate_optimization_report shop ?s))"
    by code_simp
  then have r: "fst (generate_optimization_report shop ?s) =
      Inr (projr (fst (generate_optimization_report shop ?s)))"
    by simp
  have i: "index_suggestions (projr (fst (generate_optimization_report shop ?s))) =
     [expected_suggestion ''orders'' ''customer_id'',
      expected_suggestion ''orders'' ''customer_id'',
      expected_suggestion ''orders'' ''product_id'']"
    by code_simp
  from generate_optimization_report_idempotent [OF r]
  have "fst (generate_optimization_report shop (snd (generate_optimization_report shop ?s))) =
      Inr (projr (fst (generate_optimization_report shop ?s)))"
    by blast
  with a r i show ?thesis by simp
qed

text \<open>
  C8. With \<^verbatim>\<open>self.conn\<close> still \<^verbatim>\<open>None\<close>, \<^verbatim>\<open>close\<close> returns normally and leaves the whole state
  as it is: no close call is made and nothing is logged. So when \<^verbatim>\<open>connect\<close> itself fails
  with \<open>e\<close> in \<^verbatim>\<open>generate_optimization_report\<close> or \<^verbatim>\<open>execute_optimization\<close>, the \<^verbatim>\<open>finally\<close>
  block changes nothing: the call raises \<open>e\<close>, the only call in the trace is the failed
  \<^verbatim>\<open>connect\<close>, the open connections are the same, and the log has the error lines only.
\<close>

theorem close_without_connection:
  assumes "conn s = None"
  shows
    "close s = s \<and>
     (\<forall>e. sq_connect eng (db_path s) (database s) = Some e \<longrightarrow>
        fst (generate_optimization_report eng s) = Inl e \<and>
        trace (snd (generate_optimization_report eng s)) = trace s @ [Connect (db_path s)] \<and>
        open_conns (snd (generate_optimization_report eng s)) = open_conns s \<and>
        logger (snd (generate_optimization_report eng s)) =
          logger s @
          (if is_sqlite3_Error e
           then [(ERROR, ''Error connecting to database: '' @ str_exc e)] else []) @
          [(ERROR, ''Error generating optimization report: '' @ str_exc e)] \<and>
        fst (execute_optimization eng optimize_indexes vacuum s) = Inl e \<and>
        trace (snd (execute_optimization eng optimize_indexes vacuum s)) =
          trace s @ [Connect (db_path s)] \<and>
        open_conns (snd (execute_optimization eng optimize_indexes vacuum s)) = open_conns s \<and>
        logger (snd (execute_optimization eng optimize_indexes vacuum s)) =
          logger s @
          (if is_sqlite3_Error e
           then [(ERROR, ''Error connecting to database: '' @ str_exc e)] else []) @
          [(ERROR, ''Error during optimization execution: '' @ str_exc e)])"
proof (intro conjI allI impI)
  show "close s = s" by (rule close_None [OF assms])
next
  fix e
  assume f: "sq_connect eng (db_path s) (database s) = Some e"
  let ?s1 = "snd (connect eng s)"
  note cf = connect_fail [OF f]
  have n: "close (logger_error m ?s1) = logger_error m ?s1" for m
    by (rule close_None) (simp add: cf assms)
  show "fst (generate_optimization_report eng s) = Inl e"
    by (simp add: generate_optimization_report_def report_try_connect_fail [OF f])
  show "trace (snd (generate_optimization_report eng s)) = trace s @ [Connect (db_path s)]"
    by (simp add: generate_optimization_report_def report_try_connect_fail [OF f] n cf)
  show "open_conns (snd (generate_optimization_report eng s)) = open_conns s"
    by (simp add: generate_optimization_report_def report_try_connect_fail [OF f] n cf)
  show "logger (snd (generate_optimization_report eng s)) =
          logger s @
          (if is_sqlite3_Error e
           then [(ERROR, ''Error connecting to database: '' @ str_exc e)] else []) @
          [(ERROR, ''Error generating optimization report: '' @ str_exc e)]"
    by (simp add: generate_optimization_report_def report_try_connect_fail [OF f] n cf)
  show "fst (execute_optimization eng optimize_indexes vacuum s) = Inl e"
    by (simp add: execute_optimization_def optimization_try_connect_fail [OF f])
  show "trace (snd (execute_optimization eng optimize_indexes vacuum s)) =
          trace s @ [Connect (db_path s)]"
    by (simp add: execute_optimization_def optimization_try_connect_fail [OF f] n cf)
  show "open_conns (snd (execute_optimization eng optimize_indexes vacuum s)) = open_conns s"
    by (simp add: execute_optimization_def optimization_try_connect_fail [OF f] n cf)
  show "logger (snd (execute_optimization eng optimize_indexes vacuum s)) =
          logger s @
          (if is_sqlite3_Error e
           then [(ERROR, ''Error connecting to database: '' @ str_exc e)] else []) @
          [(ERROR, ''Error during optimization execution: '' @ str_exc e)]"
    by (simp add: execute_optimization_def optimization_try_connect_fail [OF f] n cf)
qed

theorem close_without_connection_witness:
  "conn (init ''missing.db'' shop_plain) = None \<and>
   close (init ''missing.db'' shop_plain) = init ''missing.db'' shop_plain \<and>
   sq_connect shop (db_path (init ''missing.db'' shop_plain))
     (database (init ''missing.db'' shop_plain)) =
     Some (sqlite3_Error ''unable to open database file'') \<and>
   fst (generate_optimization_report shop (init ''missing.db'' shop_plain)) =
     Inl (sqlite3_Error ''unable to open database file'') \<and>
   trace (snd (generate_optimization_report shop (init ''missing.db'' shop_plain))) =
     [Connect ''missing.db''] \<and>
   fst (execute_optimization shop True True (init ''missing.db'' shop_plain)) =
     Inl (sqlite3_Error ''unable to open database file'') \<and>
   logger (snd (execute_optimization shop True True (init ''missing.db'' shop_plain))) =
     [(ERROR, ''Error connecting to database: unable to open database file''),
      (ERROR, ''Error during optimization execution: unable to open database file'')]"
proof -
  have n: "conn (init ''missing.db'' shop_plain) = None"
    by (simp add: init_def)
  have f: "sq_connect shop (db_path (init ''missing.db'' shop_plain))
     (database (init ''missing.db'' shop_plain)) =
     Some (sqlite3_Error ''unable to open database file'')"
    by (simp add: init_def shop_def)
  have i: "trace (init ''missing.db'' shop_plain) = []"
    "logger (init ''missing.db'' shop_plain) = []"
    "db_path (init ''missing.db'' shop_plain) = ''missing.db''"
    by (simp_all add: init_def)
  note w = close_without_connection [OF n, of shop True True]
  from w have "close (init ''missing.db'' shop_plain) = init ''missing.db'' shop_plain"
    by blast
  moreover from w f have
    "fst (generate_optimization_report shop (init ''missing.db'' shop_plain)) =
       Inl (sqlite3_Error ''unable to open database file'')"
    "trace (snd (generate_optimization_report shop (init ''missing.db'' shop_plain))) =
       trace (init ''missing.db'' shop_plain) @
       [Connect (db_path (init ''missing.db'' shop_plain))]"
    "fst (execute_optimization shop True True (init ''missing.db'' shop_plain)) =
       Inl (sqlite3_Error ''unable to open database file'')"
    "logger (snd (execute_optimization shop True True (init ''missing.db'' shop_plain))) =
       logger (init ''missing.db'' shop_plain) @
       (if is_sqlite3_Error (sqlite3_Error ''unable to open database file'')
        then [(ERROR, ''Error connecting to database: '' @
                str_exc (sqlite3_Error ''unable to open database file''))] else []) @
       [(ERROR, ''Error during optimization execution: '' @
           str_exc (sqlite3_Error ''unable to open database file''))]"
    by blast+
  ultimately show ?thesis using n f by (simp add: i)
qed

text \<open>
  C9. When the connection opens, \<^verbatim>\<open>execute_optimization\<close> with both flags off makes exactly
  three calls: the connect, a commit and a close of the new connection. Nothing is executed
  on the cursor, so no \<^verbatim>\<open>CREATE INDEX\<close> and no \<^verbatim>\<open>VACUUM\<close> reaches the database: its
  contents are what the commit makes of the unchanged contents (or the unchanged contents,
  when the commit fails and its exception is raised), and the connection is closed.
\<close>

theorem execute_optimization_nothing_to_do:
  assumes "sq_connect eng (db_path s) (database s) = None"
  shows
    "trace (snd (execute_optimization eng False False s)) =
       trace s @ [Connect (db_path s), Commit (next_conn s), Close (next_conn s)] \<and>
     fst (execute_optimization eng False False s) =
       (case sq_commit eng (database s) of Inl e \<Rightarrow> Inl e | Inr d \<Rightarrow> Inr ()) \<and>
     database (snd (execute_optimization eng False False s)) =
       (case sq_commit eng (database s) of Inl e \<Rightarrow> database s | Inr d \<Rightarrow> d) \<and>
     open_conns (snd (execute_optimization eng False False s)) = open_conns s - {next_conn s}"
proof -
  let ?s1 = "snd (connect eng s)"
  note ok = connect_ok [OF assms]
  have o: "next_conn s \<in> open_conns ?s1" by (simp add: ok)
  note cc = conn_commit_open [OF ok(2) o, of eng]
  show ?thesis
  proof (cases "sq_commit eng (database s)")
    case (Inl e)
    with cc have t: "optimization_try eng False False s =
        (Inl e, ?s1\<lparr>trace := trace ?s1 @ [Commit (next_conn s)]\<rparr>)"
      by (simp add: optimization_try_nothing [OF assms] ok)
    show ?thesis
      using Inl by (simp add: execute_optimization_def t close_effect ok)
  next
    case (Inr d)
    with cc have t: "optimization_try eng False False s =
        (Inr (), ?s1\<lparr>database := d, trace := trace ?s1 @ [Commit (next_conn s)]\<rparr>)"
      by (simp add: optimization_try_nothing [OF assms] ok)
    show ?thesis
      using Inr by (simp add: execute_optimization_def t close_effect ok)
  qed
qed

theorem execute_optimization_nothing_to_do_witness:
  "sq_connect shop (db_path (init ''shop.db'' shop_plain))
     (database (init ''shop.db'' shop_plain)) = None \<and>
   trace (snd (execute_optimization shop False False (init ''shop.db'' shop_plain))) =
     [Connect ''shop.db'', Commit 0, Close 0] \<and>
   fst (execute_optimization shop False False (init ''shop.db'' shop_plain)) = Inr () \<and>
   database (snd (execute_optimization shop False False (init ''shop.db'' shop_plain))) =
     shop_plain \<and>
   open_conns (snd (execute_optimization shop False False (init ''shop.db'' shop_plain))) = {}"
proof -
  have c: "sq_connect shop (db_path (init ''shop.db'' shop_plain))
     (database (init ''shop.db'' shop_plain)) = None"
    by (simp add: init_def shop_def)
  have m: "sq_commit shop (database (init ''shop.db'' shop_plain)) = Inr shop_plain"
    by (simp add: init_def shop_def)
  have i: "trace (init ''shop.db'' shop_plain) = []"
    "db_path (init ''shop.db'' shop_plain) = ''shop.db''"
    "next_conn (init ''shop.db'' shop_plain) = 0"
    "open_conns (init ''shop.db'' shop_plain) = {}"
    by (simp_all add: init_def)
  from execute_optimization_nothing_to_do [OF c] c show ?thesis
    by (simp add: m i)
qed

text \<open>
  C10. Every issue that \<^verbatim>\<open>check_normalization\<close> returns has as its \<^verbatim>\<open>sample\<close> a non-empty
  string that contains a comma, a semicolon, a bar or a slash. The loop body adds no issue
  for \<^verbatim>\<open>None\<close>, for an integer, for a float, for bytes or for the empty string.
\<close>

theorem check_normalization_issue_samples:
  assumes "fst (check_normalization eng s) = Inr issues"
  shows
    "(\<forall>i \<in> set issues. \<exists>x. ni_sample i = Text x \<and> x \<noteq> [] \<and>
        (CHR '','' \<in> set x \<or> CHR '';'' \<in> set x \<or> CHR ''|'' \<in> set x \<or> CHR ''/'' \<in> set x)) \<and>
     (\<forall>t c acc.
        check_sample t c Null acc = acc \<and>
        (\<forall>n. check_sample t c (Integer n) acc = acc) \<and>
        (\<forall>w. check_sample t c (Real w) acc = acc) \<and>
        (\<forall>b. check_sample t c (Blob b) acc = acc) \<and>
        check_sample t c (Text []) acc = acc)"
proof (intro conjI ballI allI)
  fix i
  assume "i \<in> set issues"
  with check_normalization_inv [OF assms] have "delimited_text (ni_sample i)" by blast
  then show "\<exists>x. ni_sample i = Text x \<and> x \<noteq> [] \<and>
        (CHR '','' \<in> set x \<or> CHR '';'' \<in> set x \<or> CHR ''|'' \<in> set x \<or> CHR ''/'' \<in> set x)"
    by (cases "ni_sample i") (simp_all add: delimited_text_def has_delimiter_def)
qed (simp_all add: check_sample_other)

theorem check_normalization_issue_samples_witness:
  "fst (check_normalization shop (opened shop_plain)) =
     Inr [\<lparr>ni_table = ''orders'', ni_column = ''notes'',
           ni_issue = ''Possible 1NF violation - multiple values in single column'',
           ni_sample = Text ''a,b,c''\<rparr>,
          \<lparr>ni_table = ''orders'', ni_column = ''notes'',
           ni_issue = ''Possible 1NF violation - multiple values in single column'',
           ni_sample = Text ''ring 555/0100''\<rparr>] \<and>
   (\<exists>x. Text ''a,b,c'' = Text x \<and> x \<noteq> [] \<and>
      (CHR '','' \<in> set x \<or> CHR '';'' \<in> set x \<or> CHR ''|'' \<in> set x \<or> CHR ''/'' \<in> set x)) \<and>
   (\<exists>x. Text ''ring 555/0100'' = Text x \<and> x \<noteq> [] \<and>
      (CHR '','' \<in> set x \<or> CHR '';'' \<in> set x \<or> CHR ''|'' \<in> set x \<or> CHR ''/'' \<in> set x))"
  using check_normalization_issue_samples [OF shop_check_normalization, THEN conjunct1]
    shop_check_normalization
  by simp
end
